theory Spec2Isabelle
  imports Main
begin

section \<open>JavaScript values\<close>

text \<open>
  The utilities of the repository are written in JavaScript and take values of any type.
  A JavaScript string is modelled as \<^typ>\<open>string\<close>: a sequence of code units below 256
  (the Latin-1 part of UTF-16), on which \<open>toLowerCase\<close> and the regular expressions of
  the source are fully determined.

  A finite number is kept as an exact decimal \<open>Dec neg m e\<close>, standing for
  \<open>(-1)^neg * m * 10^e\<close>; the rounding to binary64 is not modelled. The code below only
  observes the type tag of a number and whether it is zero or \<open>NaN\<close>.
\<close>

datatype jsnum = NaN | PosInfinity | NegInfinity | Dec bool nat int

datatype jsval =
    JUndefined
  | JNull
  | JBool bool
  | JNum jsnum
  | JBigInt int
  | JStr string
  | JSymbol
  | JFunction
  | JArr "jsval list"
  | JObj "(string \<times> jsval) list"

type_synonym jsobject = "(string \<times> jsval) list"

text \<open>\<open>!x\<close> is true exactly for the falsy values.\<close>

fun truthy :: "jsval \<Rightarrow> bool" where
  "truthy JUndefined = False"
| "truthy JNull = False"
| "truthy (JBool b) = b"
| "truthy (JNum NaN) = False"
| "truthy (JNum (Dec neg m e)) = (m \<noteq> 0)"
| "truthy (JNum x) = True"
| "truthy (JBigInt i) = (i \<noteq> 0)"
| "truthy (JStr s) = (s \<noteq> [])"
| "truthy v = True"

fun typeof :: "jsval \<Rightarrow> string" where
  "typeof JUndefined = ''undefined''"
| "typeof JNull = ''object''"
| "typeof (JBool b) = ''boolean''"
| "typeof (JNum x) = ''number''"
| "typeof (JBigInt i) = ''bigint''"
| "typeof (JStr s) = ''string''"
| "typeof JSymbol = ''symbol''"
| "typeof JFunction = ''function''"
| "typeof (JArr vs) = ''object''"
| "typeof (JObj ps) = ''object''"

text \<open>\<open>a || b\<close>\<close>

definition js_or :: "jsval \<Rightarrow> jsval \<Rightarrow> jsval" where
  "js_or a b = (if truthy a then a else b)"

text \<open>
  An object is the list of its own enumerable properties in creation order. Defining a
  property that exists replaces its value and keeps its place. (The rule that puts
  integer-like keys first is not modelled; nothing below enumerates such keys.)
\<close>

fun put_property :: "string \<Rightarrow> jsval \<Rightarrow> jsobject \<Rightarrow> jsobject" where
  "put_property k v [] = [(k, v)]"
| "put_property k v (p # ps) =
     (if fst p = k then (k, v) # ps else p # put_property k v ps)"

definition put_all :: "jsobject \<Rightarrow> jsobject \<Rightarrow> jsobject" where
  "put_all obj ps = foldl (\<lambda>acc p. put_property (fst p) (snd p) acc) obj ps"

definition own_property :: "jsobject \<Rightarrow> string \<Rightarrow> jsval option" where
  "own_property obj k = map_of obj k"

text \<open>
  \<open>x.k\<close> for a key \<open>k\<close> that no built-in prototype defines (\<open>isValid\<close>, \<open>error\<close>,
  \<open>message\<close>, the option keys): \<open>None\<close> is the TypeError on \<open>null\<close> and
  \<open>undefined\<close>; a primitive or an array has no such property and yields
  \<open>undefined\<close>.
\<close>

fun get_property :: "jsval \<Rightarrow> string \<Rightarrow> jsval option" where
  "get_property JUndefined k = None"
| "get_property JNull k = None"
| "get_property (JObj ps) k =
     Some (case own_property ps k of None \<Rightarrow> JUndefined | Some v \<Rightarrow> v)"
| "get_property v k = Some JUndefined"

section \<open>The platform's JSON.parse\<close>

text \<open>
  \<open>JSON.parse\<close> is a built-in of the platform, not code of the repository. It is
  modelled as a recursive-descent parser of the JSON grammar (ECMA-404). The recursion
  into nested values is bounded by fuel; \<open>fuel_suffices\<close> below shows that the fuel
  \<open>JSON_parse\<close> supplies never runs out, so \<open>None\<close> is exactly the SyntaxError.
  The parsers of numbers and of strings need no fuel; their \<open>None\<close> is the syntax error.
\<close>

datatype 'a presult = Parsed 'a string | SyntaxError | OutOfFuel

definition is_ws :: "char \<Rightarrow> bool" where
  "is_ws c = (c = CHR '' '' \<or> c = CHR 0x09 \<or> c = CHR 0x0A \<or> c = CHR 0x0D)"

definition skip_ws :: "string \<Rightarrow> string" where
  "skip_ws = dropWhile is_ws"

definition is_digit :: "char \<Rightarrow> bool" where
  "is_digit c = (48 \<le> (of_char c :: nat) \<and> (of_char c :: nat) \<le> 57)"

definition digits_value :: "string \<Rightarrow> nat" where
  "digits_value ds = foldl (\<lambda>n c. 10 * n + (of_char c - 48)) 0 ds"

definition starts_with :: "char \<Rightarrow> string \<Rightarrow> bool" where
  "starts_with c s = (case s of [] \<Rightarrow> False | x # xs \<Rightarrow> x = c)"

text \<open>
  number: \<open>-? (0 | [1-9][0-9]*) (. [0-9]+)? ([eE] [+-]? [0-9]+)?\<close>, read part by
  part; each part returns what it read and the rest of the text. A digit after a leading
  zero is refused at once: no JSON text continues a number that way.
\<close>

definition parse_int_part :: "string \<Rightarrow> (string \<times> string) option" where
  "parse_int_part s =
    (let ip = takeWhile is_digit s
     in if ip = [] \<or> (starts_with (CHR ''0'') ip \<and> 1 < length ip) then None
        else Some (ip, dropWhile is_digit s))"

definition parse_frac :: "string \<Rightarrow> (string \<times> string) option" where
  "parse_frac s =
    (if starts_with (CHR ''.'') s then
       (let fp = takeWhile is_digit (tl s)
        in if fp = [] then None else Some (fp, dropWhile is_digit (tl s)))
     else Some ([], s))"

definition parse_exp :: "string \<Rightarrow> (int \<times> string) option" where
  "parse_exp s =
    (if starts_with (CHR ''e'') s \<or> starts_with (CHR ''E'') s then
       (let s1 = tl s;
            neg = starts_with (CHR ''-'') s1;
            s2 = (if neg \<or> starts_with (CHR ''+'') s1 then tl s1 else s1);
            ep = takeWhile is_digit s2
        in if ep = [] then None
           else Some (if neg then - int (digits_value ep) else int (digits_value ep),
                      dropWhile is_digit s2))
     else Some (0, s))"

definition parse_number :: "string \<Rightarrow> (jsnum \<times> string) option" where
  "parse_number s =
    (let neg = starts_with (CHR ''-'') s
     in case parse_int_part (if neg then tl s else s) of
          None \<Rightarrow> None
        | Some (ip, s2) \<Rightarrow>
           (case parse_frac s2 of
              None \<Rightarrow> None
            | Some (fp, s3) \<Rightarrow>
               (case parse_exp s3 of
                  None \<Rightarrow> None
                | Some (e, s4) \<Rightarrow>
                    Some (Dec neg (digits_value (ip @ fp)) (e - int (length fp)), s4))))"

definition hex_value :: "char \<Rightarrow> nat option" where
  "hex_value c =
    (let n = (of_char c :: nat) in
     if 48 \<le> n \<and> n \<le> 57 then Some (n - 48)
     else if 65 \<le> n \<and> n \<le> 70 then Some (n - 55)
     else if 97 \<le> n \<and> n \<le> 102 then Some (n - 87)
     else None)"

fun hex4 :: "string \<Rightarrow> nat option" where
  "hex4 [a, b, c, d] =
    (case (hex_value a, hex_value b, hex_value c, hex_value d) of
       (Some w, Some x, Some y, Some z) \<Rightarrow> Some (((w * 16 + x) * 16 + y) * 16 + z)
     | _ \<Rightarrow> None)"
| "hex4 s = None"

definition unescape :: "char \<Rightarrow> char option" where
  "unescape e =
    (if e = CHR 0x22 then Some (CHR 0x22)
     else if e = CHR 0x5C then Some (CHR 0x5C)
     else if e = CHR ''/'' then Some (CHR ''/'')
     else if e = CHR ''b'' then Some (CHR 0x08)
     else if e = CHR ''f'' then Some (CHR 0x0C)
     else if e = CHR ''n'' then Some (CHR 0x0A)
     else if e = CHR ''r'' then Some (CHR 0x0D)
     else if e = CHR ''t'' then Some (CHR 0x09)
     else None)"

text \<open>
  The characters of a string after its opening quote, up to the closing quote. A code
  unit above 255 written as \<open>\uXXXX\<close> has no \<^typ>\<open>char\<close>; its low byte is kept.
  No function of the repository looks into the characters of a parsed string.
\<close>

fun parse_chars :: "string \<Rightarrow> (string \<times> string) option" where
  "parse_chars [] = None"
| "parse_chars (c # cs) =
    (if c = CHR 0x22 then Some ([], cs)
     else if c = CHR 0x5C then
       (case cs of
          [] \<Rightarrow> None
        | e # r \<Rightarrow>
            if e = CHR ''u'' then
              (case hex4 (take 4 r) of
                 None \<Rightarrow> None
               | Some n \<Rightarrow>
                   (case parse_chars (drop 4 r) of
                      None \<Rightarrow> None
                    | Some (t, rest) \<Rightarrow> Some (char_of n # t, rest)))
            else
              (case unescape e of
                 None \<Rightarrow> None
               | Some d \<Rightarrow>
                   (case parse_chars r of
                      None \<Rightarrow> None
                    | Some (t, rest) \<Rightarrow> Some (d # t, rest))))
     else if (of_char c :: nat) < 32 then None
     else
       (case parse_chars cs of
          None \<Rightarrow> None
        | Some (t, rest) \<Rightarrow> Some (c # t, rest)))"

text \<open>
  \<open>parse_value\<close> reads one value at the head of the text; \<open>parse_elements\<close> reads the
  elements of an array after its bracket, \<open>parse_members\<close> the members of an object
  after its brace, each up to and including the closing bracket.
\<close>

fun parse_value :: "nat \<Rightarrow> string \<Rightarrow> jsval presult"
  and parse_elements :: "nat \<Rightarrow> string \<Rightarrow> jsval list presult"
  and parse_members :: "nat \<Rightarrow> string \<Rightarrow> jsobject presult"
where
  "parse_value 0 s = OutOfFuel"
| "parse_value (Suc n) s =
    (case s of
       [] \<Rightarrow> SyntaxError
     | c # cs \<Rightarrow>
        if c = CHR ''{'' then
          (if starts_with (CHR ''}'') (skip_ws cs) then Parsed (JObj []) (tl (skip_ws cs))
           else
             (case parse_members n cs of
                Parsed ms r \<Rightarrow> Parsed (JObj (put_all [] ms)) r
              | SyntaxError \<Rightarrow> SyntaxError
              | OutOfFuel \<Rightarrow> OutOfFuel))
        else if c = CHR ''['' then
          (if starts_with (CHR '']'') (skip_ws cs) then Parsed (JArr []) (tl (skip_ws cs))
           else
             (case parse_elements n cs of
                Parsed vs r \<Rightarrow> Parsed (JArr vs) r
              | SyntaxError \<Rightarrow> SyntaxError
              | OutOfFuel \<Rightarrow> OutOfFuel))
        else if c = CHR 0x22 then
          (case parse_chars cs of
             None \<Rightarrow> SyntaxError
           | Some (t, r) \<Rightarrow> Parsed (JStr t) r)
        else if take 4 s = ''true'' then Parsed (JBool True) (drop 4 s)
        else if take 5 s = ''false'' then Parsed (JBool False) (drop 5 s)
        else if take 4 s = ''null'' then Parsed JNull (drop 4 s)
        else
          (case parse_number s of
             None \<Rightarrow> SyntaxError
           | Some (x, r) \<Rightarrow> Parsed (JNum x) r))"
| "parse_elements 0 s = OutOfFuel"
| "parse_elements (Suc n) s =
    (case parse_value n (skip_ws s) of
       Parsed v r \<Rightarrow>
         (if starts_with (CHR '','') (skip_ws r) then
            (case parse_elements n (tl (skip_ws r)) of
               Parsed vs r' \<Rightarrow> Parsed (v # vs) r'
             | SyntaxError \<Rightarrow> SyntaxError
             | OutOfFuel \<Rightarrow> OutOfFuel)
          else if starts_with (CHR '']'') (skip_ws r) then Parsed [v] (tl (skip_ws r))
          else SyntaxError)
     | SyntaxError \<Rightarrow> SyntaxError
     | OutOfFuel \<Rightarrow> OutOfFuel)"
| "parse_members 0 s = OutOfFuel"
| "parse_members (Suc n) s =
    (if starts_with (CHR 0x22) (skip_ws s) then
       (case parse_chars (tl (skip_ws s)) of
          None \<Rightarrow> SyntaxError
        | Some (k, r) \<Rightarrow>
            (if starts_with (CHR '':'') (skip_ws r) then
               (case parse_value n (skip_ws (tl (skip_ws r))) of
                  Parsed v r' \<Rightarrow>
                    (if starts_with (CHR '','') (skip_ws r') then
                       (case parse_members n (tl (skip_ws r')) of
                          Parsed ms r'' \<Rightarrow> Parsed ((k, v) # ms) r''
                        | SyntaxError \<Rightarrow> SyntaxError
                        | OutOfFuel \<Rightarrow> OutOfFuel)
                     else if starts_with (CHR ''}'') (skip_ws r') then
                       Parsed [(k, v)] (tl (skip_ws r'))
                     else SyntaxError)
                | SyntaxError \<Rightarrow> SyntaxError
                | OutOfFuel \<Rightarrow> OutOfFuel)
             else SyntaxError))
     else SyntaxError)"

definition parse_text :: "string \<Rightarrow> jsval presult" where
  "parse_text s = parse_value (Suc (length s + length s)) (skip_ws s)"

text \<open>\<open>JSON.parse(s)\<close>: \<open>None\<close> when it throws a SyntaxError.\<close>

definition JSON_parse :: "string \<Rightarrow> jsval option" where
  "JSON_parse s =
    (case parse_text s of
       Parsed v r \<Rightarrow> (if skip_ws r = [] then Some v else None)
     | SyntaxError \<Rightarrow> None
     | OutOfFuel \<Rightarrow> None)"

section \<open>JSON validation\<close>

text \<open>\<open>isValidJson\<close>: whether \<open>JSON.parse\<close> returns; it never throws.\<close>

definition isValidJson :: "string \<Rightarrow> bool" where
  "isValidJson jsonString = (case JSON_parse jsonString of None \<Rightarrow> False | Some v \<Rightarrow> True)"

record validation =
  isValid :: bool
  errors :: "string list"

text \<open>
  \<open>validateJsonData\<close>. The first stage is the source up to the reassignment of \<open>data\<close>:
  it ends with the errors of an early return or with the value \<open>data\<close> then holds.
\<close>

definition parsed_data :: "jsval \<Rightarrow> string list + jsval" where
  "parsed_data data =
    (if \<not> truthy data then Inl [''Data is required'']
     else
       (case data of
          JStr s \<Rightarrow>
            (if \<not> isValidJson s then Inl [''Invalid JSON format'']
             else
               (case JSON_parse s of
                  None \<Rightarrow> Inl [''Failed to parse JSON'']
                | Some v \<Rightarrow> Inr v))
        | _ \<Rightarrow> Inr data))"

definition validateJsonData :: "jsval \<Rightarrow> validation" where
  "validateJsonData data =
    (case parsed_data data of
       Inl errs \<Rightarrow> \<lparr>isValid = False, errors = errs\<rparr>
     | Inr d \<Rightarrow>
        (let errs = (if typeof d \<noteq> ''object'' then [''JSON must be an object or array'']
                     else [])
         in \<lparr>isValid = (length errs = 0), errors = errs\<rparr>))"

section \<open>Files\<close>

text \<open>
  A \<open>File\<close> of the browser: its \<open>name\<close>, its declared MIME \<open>type\<close>, its \<open>size\<close> in
  bytes, and what \<open>readFileAsText\<close> settles with: \<open>Some\<close> text when the reader fires
  \<open>onload\<close>, \<open>None\<close> when it fires \<open>onerror\<close>.
\<close>

record jsfile =
  file_name :: string
  file_type :: string
  file_size :: nat
  file_text :: "string option"

definition default_allowedTypes :: "string list" where
  "default_allowedTypes = [''application/json'', ''text/plain'']"

definition default_maxSize :: nat where
  "default_maxSize = 10 * 1024 * 1024"

text \<open>
  \<open>validateFileType(file, allowedTypes)\<close> and \<open>validateFileSize(file, maxSize)\<close> return a
  boolean. An argument left out (\<open>None\<close>) takes the default of the parameter.
\<close>

definition validateFileType :: "jsfile \<Rightarrow> string list option \<Rightarrow> bool" where
  "validateFileType file allowedTypes =
    (file_type file \<in> set (case allowedTypes of None \<Rightarrow> default_allowedTypes | Some ts \<Rightarrow> ts))"

definition validateFileSize :: "jsfile \<Rightarrow> nat option \<Rightarrow> bool" where
  "validateFileSize file maxSize =
    (file_size file \<le> (case maxSize of None \<Rightarrow> default_maxSize | Some m \<Rightarrow> m))"

section \<open>The batch parser\<close>

text \<open>\<open>errors.join(sep)\<close>\<close>

fun join :: "string \<Rightarrow> string list \<Rightarrow> string" where
  "join sep [] = []"
| "join sep [x] = x"
| "join sep (x # y # ys) = x @ sep @ join sep (y # ys)"

text \<open>
  One record of the result, \<open>{filename, data, size}\<close>.
\<close>

record parsed_file =
  rec_filename :: string
  rec_data :: jsval
  rec_size :: nat

text \<open>
  The effects of the loop that can be observed from outside: the call of
  \<open>readFileAsText\<close> on a file, and the \<open>push\<close> of its record onto \<open>results\<close>.
\<close>

datatype event = ReadAsText string | Push string

text \<open>
  The message of the SyntaxError that \<open>JSON.parse\<close> throws is chosen by the engine; the
  model fixes one text for it.
\<close>

definition syntax_error_message :: string where
  "syntax_error_message = ''Unexpected token''"

text \<open>
  The body of the \<open>try\<close> block for one file: \<open>Inl\<close> is the \<open>message\<close> of what it throws,
  \<open>Inr\<close> the record it pushes. A failed read rejects with the reader's event, which has
  no \<open>message\<close>: the template prints \<open>undefined\<close>.
\<close>

definition process_file :: "jsfile \<Rightarrow> (string + parsed_file) \<times> event list" where
  "process_file file =
    (if \<not> validateFileType file None then
       (Inl (''Invalid file type: '' @ file_type file), [])
     else if \<not> validateFileSize file None then
       (Inl ''File size exceeds limit'', [])
     else
       (case file_text file of
          None \<Rightarrow> (Inl ''undefined'', [ReadAsText (file_name file)])
        | Some content \<Rightarrow>
            (let validation = validateJsonData (JStr content) in
             if \<not> isValid validation then
               (Inl (''Invalid JSON in '' @ file_name file @ '': ''
                       @ join '', '' (errors validation)),
                [ReadAsText (file_name file)])
             else
               (case JSON_parse content of
                  None \<Rightarrow> (Inl syntax_error_message, [ReadAsText (file_name file)])
                | Some d \<Rightarrow>
                    (Inr \<lparr>rec_filename = file_name file, rec_data = d,
                          rec_size = file_size file\<rparr>,
                     [ReadAsText (file_name file), Push (file_name file)])))))"

text \<open>
  The \<open>for\<close> loop, with \<open>results\<close> and the effects so far. The promise is rejected
  (\<open>Inl\<close>, the message of the Error) or fulfilled with \<open>results\<close> (\<open>Inr\<close>).
\<close>

fun parse_loop ::
  "jsfile list \<Rightarrow> parsed_file list \<Rightarrow> event list \<Rightarrow> (string + parsed_file list) \<times> event list"
where
  "parse_loop [] results trace = (Inr results, trace)"
| "parse_loop (file # rest) results trace =
    (case process_file file of
       (Inl msg, evs) \<Rightarrow>
         (Inl (''Error processing '' @ file_name file @ '': '' @ msg), trace @ evs)
     | (Inr r, evs) \<Rightarrow> parse_loop rest (results @ [r]) (trace @ evs))"

definition parseMultipleJsonFiles ::
  "jsfile list \<Rightarrow> (string + parsed_file list) \<times> event list" where
  "parseMultipleJsonFiles files = parse_loop files [] []"

text \<open>A file passes when each step of the loop body succeeds on it.\<close>

definition passes_json :: "jsfile \<Rightarrow> bool" where
  "passes_json file =
    (case file_text file of
       None \<Rightarrow> False
     | Some content \<Rightarrow> isValid (validateJsonData (JStr content)))"

definition file_ok :: "jsfile \<Rightarrow> bool" where
  "file_ok file =
    (validateFileType file None \<and> validateFileSize file None \<and> passes_json file)"

text \<open>The record that belongs to a file: its name, its size, its text parsed.\<close>

definition record_for :: "jsfile \<Rightarrow> parsed_file \<Rightarrow> bool" where
  "record_for file r =
    (rec_filename r = file_name file \<and> rec_size r = file_size file \<and>
     (case file_text file of
        None \<Rightarrow> False
      | Some content \<Rightarrow> JSON_parse content = Some (rec_data r)))"

section \<open>The drop zone\<close>

text \<open>
  \<open>validateFiles\<close> of the DropZone component, for its props \<open>acceptedTypes\<close> and
  \<open>maxFileSize\<close>. It reads \<open>isValid\<close> and \<open>error\<close> from what the two validators
  return. \<open>None\<close> is a TypeError.
\<close>

record file_error =
  err_file :: string
  err_message :: jsval

definition validate_step ::
  "string list \<Rightarrow> nat \<Rightarrow> (jsfile list \<times> file_error list) option \<Rightarrow> jsfile
     \<Rightarrow> (jsfile list \<times> file_error list) option" where
  "validate_step acceptedTypes maxFileSize acc file =
    (case acc of
       None \<Rightarrow> None
     | Some (validFiles, fileErrors) \<Rightarrow>
        (let typeValidation = JBool (validateFileType file (Some acceptedTypes));
             sizeValidation = JBool (validateFileSize file (Some maxFileSize))
         in case get_property typeValidation ''isValid'' of
              None \<Rightarrow> None
            | Some type_ok \<Rightarrow>
               if \<not> truthy type_ok then
                 (case get_property typeValidation ''error'' of
                    None \<Rightarrow> None
                  | Some msg \<Rightarrow>
                      Some (validFiles,
                            fileErrors @ [\<lparr>err_file = file_name file, err_message = msg\<rparr>]))
               else
                 (case get_property sizeValidation ''isValid'' of
                    None \<Rightarrow> None
                  | Some size_ok \<Rightarrow>
                     if \<not> truthy size_ok then
                       (case get_property sizeValidation ''error'' of
                          None \<Rightarrow> None
                        | Some msg \<Rightarrow>
                            Some (validFiles,
                                  fileErrors
                                    @ [\<lparr>err_file = file_name file, err_message = msg\<rparr>]))
                     else Some (validFiles @ [file], fileErrors))))"

definition validateFiles ::
  "string list \<Rightarrow> nat \<Rightarrow> jsfile list \<Rightarrow> (jsfile list \<times> file_error list) option" where
  "validateFiles acceptedTypes maxFileSize fileList =
    foldl (validate_step acceptedTypes maxFileSize) (Some ([], [])) fileList"

section \<open>Filename utilities\<close>

text \<open>
  The class \<open>[a-z0-9.-]\<close> under the flag \<open>i\<close>: letters of either case, digits, the dot
  and the hyphen.
\<close>

definition is_safe_char :: "char \<Rightarrow> bool" where
  "is_safe_char c =
    (let n = (of_char c :: nat) in
     (97 \<le> n \<and> n \<le> 122) \<or> (65 \<le> n \<and> n \<le> 90) \<or> (48 \<le> n \<and> n \<le> 57)
       \<or> c = CHR ''.'' \<or> c = CHR ''-'')"

text \<open>\<open>.replace(/[^a-z0-9.-]/gi, '_')\<close>\<close>

definition replace_unsafe :: "string \<Rightarrow> string" where
  "replace_unsafe s = map (\<lambda>c. if is_safe_char c then c else CHR ''_'') s"

text \<open>
  \<open>.replace(/_{2,}/g, '_')\<close>: where two or more underscores begin, the whole run is
  matched and one underscore is written for it.
\<close>

function collapse_underscores :: "string \<Rightarrow> string" where
  "collapse_underscores [] = []"
| "collapse_underscores (c # cs) =
    (if c = CHR ''_'' \<and> starts_with (CHR ''_'') cs
     then CHR ''_'' # collapse_underscores (dropWhile (\<lambda>x. x = CHR ''_'') cs)
     else c # collapse_underscores cs)"
  by pat_completeness auto
termination
  by (relation "measure length") (auto simp: length_dropWhile_le less_Suc_eq_le)

text \<open>
  \<open>.replace(/^_|_$/g, '')\<close>: one underscore at the start of the text and one at its end
  are deleted.
\<close>

definition trim_underscore :: "string \<Rightarrow> string" where
  "trim_underscore s =
    (let s1 = (if starts_with (CHR ''_'') s then tl s else s)
     in if s1 \<noteq> [] \<and> last s1 = CHR ''_'' then butlast s1 else s1)"

definition sanitizeFilename :: "string \<Rightarrow> string" where
  "sanitizeFilename filename = trim_underscore (collapse_underscores (replace_unsafe filename))"

text \<open>
  The words of the specification, each on its own: every character outside the class
  becomes an underscore; an underscore that another follows is dropped; all underscores
  at either end are removed.
\<close>

definition spec_replace :: "string \<Rightarrow> string" where
  "spec_replace s = map (\<lambda>c. if is_safe_char c then c else CHR ''_'') s"

fun spec_collapse :: "string \<Rightarrow> string" where
  "spec_collapse (a # b # cs) =
    (if a = CHR ''_'' \<and> b = CHR ''_'' then spec_collapse (b # cs)
     else a # spec_collapse (b # cs))"
| "spec_collapse s = s"

definition spec_trim :: "string \<Rightarrow> string" where
  "spec_trim s =
    rev (dropWhile (\<lambda>x. x = CHR ''_'') (rev (dropWhile (\<lambda>x. x = CHR ''_'') s)))"

definition spec_sanitize :: "string \<Rightarrow> string" where
  "spec_sanitize s = spec_trim (spec_collapse (spec_replace s))"

text \<open>\<open>s.split(sep)\<close> for a separator of one character: never an empty array.\<close>

fun split_on :: "char \<Rightarrow> string \<Rightarrow> string list" where
  "split_on sep [] = [[]]"
| "split_on sep (c # cs) =
    (if c = sep then [] # split_on sep cs
     else (case split_on sep cs of
             [] \<Rightarrow> [[c]]
           | p # ps \<Rightarrow> (c # p) # ps))"

text \<open>\<open>arr.pop()\<close>: the last element, \<open>undefined\<close> (\<open>None\<close>) on an empty array.\<close>

definition pop :: "'a list \<Rightarrow> 'a option" where
  "pop xs = (if xs = [] then None else Some (last xs))"

text \<open>\<open>toLowerCase\<close> on code units below 256.\<close>

definition lower_char :: "char \<Rightarrow> char" where
  "lower_char c =
    (let n = (of_char c :: nat) in
     if (65 \<le> n \<and> n \<le> 90) \<or> (192 \<le> n \<and> n \<le> 222 \<and> n \<noteq> 215) then char_of (n + 32) else c)"

definition toLowerCase :: "string \<Rightarrow> string" where
  "toLowerCase s = map lower_char s"

text \<open>\<open>filename.split('.').pop()?.toLowerCase() || ''\<close>\<close>

definition getFileExtension :: "string \<Rightarrow> string" where
  "getFileExtension filename =
    (case pop (split_on (CHR ''.'') filename) of
       None \<Rightarrow> []
     | Some part \<Rightarrow> (if toLowerCase part \<noteq> [] then toLowerCase part else []))"

text \<open>\<open>s.lastIndexOf(c)\<close>: the last position of \<open>c\<close>, or \<open>-1\<close>.\<close>

fun last_index_from :: "char \<Rightarrow> string \<Rightarrow> nat \<Rightarrow> int \<Rightarrow> int" where
  "last_index_from c [] i found = found"
| "last_index_from c (x # xs) i found =
    last_index_from c xs (Suc i) (if x = c then int i else found)"

definition lastIndexOf :: "string \<Rightarrow> char \<Rightarrow> int" where
  "lastIndexOf s c = last_index_from c s 0 (- 1)"

definition removeFileExtension :: "string \<Rightarrow> string" where
  "removeFileExtension filename =
    (let lastDotIndex = lastIndexOf filename (CHR ''.'')
     in if lastDotIndex > 0 then take (nat lastDotIndex) filename else filename)"

section \<open>The API client\<close>

text \<open>
  What the client throws: an \<open>ApiError(message, status, data)\<close>, holding the arguments of
  its constructor, or any other error, with its name and message (the \<open>Error\<close> of the
  timeout, the \<open>TypeError\<close> of a failed \<open>fetch\<close>, a \<open>SyntaxError\<close>).
\<close>

datatype js_error = ApiError jsval nat jsval | OtherError string string

text \<open>
  A response: its status, its \<open>content-type\<close> header (\<open>None\<close> when \<open>headers.get\<close>
  returns \<open>null\<close>), what \<open>text()\<close> resolves to, and the size of its blob.
\<close>

record response =
  resp_status :: nat
  resp_content_type :: "string option"
  resp_text :: string
  resp_size :: nat

text \<open>
  A request. \<open>JsonBody v\<close> is the text \<open>JSON.stringify(v)\<close>, which is left to the
  platform; a form is the list of its fields.
\<close>

datatype form_value = FormFile jsfile | FormString string | FormJson jsval

datatype body = NoBody | JsonBody jsval | FormBody "(string \<times> form_value) list"

record request =
  req_url :: string
  req_method :: string
  req_headers :: "(string \<times> string) list"
  req_body :: body

text \<open>
  What \<open>fetch\<close> does with a request: it resolves with a response or rejects with a
  \<open>TypeError\<close> after so many milliseconds, or it never settles.
\<close>

datatype fetch_outcome = Responds nat response | Fails nat string | Hangs

definition REQUEST_TIMEOUT :: nat where
  "REQUEST_TIMEOUT = 30000"

text \<open>
  \<open>fetchWithTimeout\<close>: the race of \<open>fetch\<close> against a timer. The promise that settles
  first decides; a \<open>fetch\<close> that has not settled when the timer fires loses.
\<close>

definition fetchWithTimeout ::
  "(request \<Rightarrow> fetch_outcome) \<Rightarrow> request \<Rightarrow> nat option \<Rightarrow> js_error + response" where
  "fetchWithTimeout fetch req timeout =
    (let limit = (case timeout of None \<Rightarrow> REQUEST_TIMEOUT | Some t \<Rightarrow> t)
     in case fetch req of
          Responds t response \<Rightarrow>
            (if t < limit then Inr response else Inl (OtherError ''Error'' ''Request timeout''))
        | Fails t msg \<Rightarrow>
            (if t < limit then Inl (OtherError ''TypeError'' msg)
             else Inl (OtherError ''Error'' ''Request timeout''))
        | Hangs \<Rightarrow> Inl (OtherError ''Error'' ''Request timeout''))"

text \<open>\<open>response.ok\<close>\<close>

definition resp_ok :: "response \<Rightarrow> bool" where
  "resp_ok response = (200 \<le> resp_status response \<and> resp_status response \<le> 299)"

text \<open>A natural number printed by a template literal.\<close>

function show_nat :: "nat \<Rightarrow> string" where
  "show_nat n =
    (if n < 10 then [char_of (48 + n)] else show_nat (n div 10) @ [char_of (48 + n mod 10)])"
  by pat_completeness auto
termination
  by (relation "measure id") auto

text \<open>\<open>s.includes(sub)\<close>\<close>

fun str_includes :: "string \<Rightarrow> string \<Rightarrow> bool" where
  "str_includes [] sub = (sub = [])"
| "str_includes (c # cs) sub = (take (length sub) (c # cs) = sub \<or> str_includes cs sub)"

definition http_error_message :: "response \<Rightarrow> jsval" where
  "http_error_message response = JStr (''HTTP error! status: '' @ show_nat (resp_status response))"

text \<open>
  \<open>handleResponse\<close>. Inside its \<open>try\<close>, \<open>response.json()\<close> rejects on a body that is not
  JSON and \<open>errorData.message\<close> throws on \<open>null\<close>; the \<open>catch\<close> logs and goes on with
  the values assigned so far.
\<close>

definition handleResponse :: "response \<Rightarrow> js_error + response" where
  "handleResponse response =
    (if \<not> resp_ok response then
       (let errorMessage = http_error_message response;
            errorData = JNull;
            json_type = (case resp_content_type response of
                           None \<Rightarrow> False
                         | Some contentType \<Rightarrow>
                             contentType \<noteq> [] \<and> str_includes contentType ''application/json'')
        in if json_type then
             (case JSON_parse (resp_text response) of
                None \<Rightarrow> Inl (ApiError errorMessage (resp_status response) errorData)
              | Some parsed \<Rightarrow>
                 (case get_property parsed ''message'' of
                    None \<Rightarrow> Inl (ApiError errorMessage (resp_status response) parsed)
                  | Some m \<Rightarrow>
                      Inl (ApiError (js_or m errorMessage) (resp_status response) parsed)))
           else
             Inl (ApiError (js_or (JStr (resp_text response)) errorMessage)
                    (resp_status response) errorData))
     else Inr response)"

text \<open>
  The \<open>catch\<close> of every operation:
  \<open>throw error instanceof ApiError ? error : new ApiError(message, 500)\<close>.
\<close>

definition rethrow :: "string \<Rightarrow> js_error \<Rightarrow> js_error" where
  "rethrow message error =
    (case error of
       ApiError m s d \<Rightarrow> error
     | OtherError n m \<Rightarrow> ApiError (JStr message) 500 JNull)"

text \<open>\<open>JSON.stringify\<close> throws a TypeError on a BigInt, wherever it stands in the value.\<close>

fun has_bigint :: "jsval \<Rightarrow> bool" where
  "has_bigint (JBigInt i) = True"
| "has_bigint (JArr vs) = (\<exists>v \<in> set vs. has_bigint v)"
| "has_bigint (JObj ps) = (\<exists>v \<in> snd ` set ps. has_bigint v)"
| "has_bigint v = False"

definition stringify_error :: js_error where
  "stringify_error = OtherError ''TypeError'' ''Do not know how to serialize a BigInt''"

definition js_int :: "nat \<Rightarrow> jsval" where
  "js_int n = JNum (Dec False n 0)"

text \<open>\<open>options.k\<close> on an options object.\<close>

definition option_value :: "jsobject \<Rightarrow> string \<Rightarrow> jsval" where
  "option_value options k = (case own_property options k of None \<Rightarrow> JUndefined | Some v \<Rightarrow> v)"

subsection \<open>convertJsonToZip\<close>

text \<open>The \<open>options\<close> of the request body: the three keys, then the spread of the caller's.\<close>

definition convertJsonToZip_options :: "jsobject \<Rightarrow> jsobject" where
  "convertJsonToZip_options options =
    put_all
      [(''compression'', js_or (option_value options ''compression'') (JStr ''DEFLATE'')),
       (''compressionLevel'', js_or (option_value options ''compressionLevel'') (js_int 6)),
       (''createFolders'', js_or (option_value options ''createFolders'') (JBool False))]
      options"

text \<open>
  The operation up to its \<open>fetch\<close>: the error its check throws, or the request it sends.
\<close>

definition convertJsonToZip_request ::
  "string \<Rightarrow> jsval \<Rightarrow> string \<Rightarrow> jsobject \<Rightarrow> js_error + request" where
  "convertJsonToZip_request base jsonData filename options =
    (if \<not> truthy jsonData \<or> typeof jsonData \<noteq> ''object'' then
       Inl (ApiError (JStr ''Invalid JSON data provided'') 400 JNull)
     else
       (let requestBody =
              JObj [(''data'', jsonData), (''filename'', JStr filename),
                    (''options'', JObj (convertJsonToZip_options options))]
        in if has_bigint requestBody then Inl stringify_error
           else Inr \<lparr>req_url = base @ ''/convert/json-to-zip'', req_method = ''POST'',
                     req_headers = [(''Content-Type'', ''application/json'')],
                     req_body = JsonBody requestBody\<rparr>))"

text \<open>
  The operations take the base URL of the service and the behaviour of \<open>fetch\<close>. An
  argument left out is \<open>None\<close>. The download that a conversion triggers in the browser on
  success is not part of what the promise settles with, and is left out.
\<close>

definition convertJsonToZip ::
  "string \<Rightarrow> (request \<Rightarrow> fetch_outcome) \<Rightarrow> jsval \<Rightarrow> string option \<Rightarrow> jsobject option
     \<Rightarrow> js_error + jsval" where
  "convertJsonToZip base fetch jsonData filename_arg options_arg =
    (let filename = (case filename_arg of None \<Rightarrow> ''data.zip'' | Some f \<Rightarrow> f);
         options = (case options_arg of None \<Rightarrow> [] | Some obj \<Rightarrow> obj);
         attempt =
           (case convertJsonToZip_request base jsonData filename options of
              Inl e \<Rightarrow> Inl e
            | Inr req \<Rightarrow>
               (case fetchWithTimeout fetch req None of
                  Inl e \<Rightarrow> Inl e
                | Inr response \<Rightarrow>
                   (case handleResponse response of
                      Inl e \<Rightarrow> Inl e
                    | Inr r \<Rightarrow>
                        Inr (JObj [(''success'', JBool True), (''filename'', JStr filename),
                                   (''size'', js_int (resp_size response))]))))
     in case attempt of
          Inl error \<Rightarrow> Inl (rethrow ''Failed to convert JSON to ZIP'' error)
        | Inr v \<Rightarrow> Inr v)"

subsection \<open>uploadAndConvertJson\<close>

text \<open>\<open>s.replace(pat, rep)\<close> for a string pattern: the first occurrence only.\<close>

fun replace_first :: "string \<Rightarrow> string \<Rightarrow> string \<Rightarrow> string" where
  "replace_first pat rep [] = (if pat = [] then rep else [])"
| "replace_first pat rep (c # cs) =
    (if take (length pat) (c # cs) = pat then rep @ drop (length pat) (c # cs)
     else c # replace_first pat rep cs)"

text \<open>
  The check of the file and the form of the request; \<open>Inr\<close> holds the file that passed
  the check beside the request.
\<close>

definition uploadAndConvertJson_request ::
  "string \<Rightarrow> jsfile option \<Rightarrow> string option \<Rightarrow> jsobject \<Rightarrow> js_error + jsfile \<times> request"
where
  "uploadAndConvertJson_request base file_arg outputFilename options =
    (case file_arg of
       None \<Rightarrow> Inl (ApiError (JStr ''Please provide a valid JSON file'') 400 JNull)
     | Some file \<Rightarrow>
        if file_type file \<noteq> ''application/json'' then
          Inl (ApiError (JStr ''Please provide a valid JSON file'') 400 JNull)
        else if options \<noteq> [] \<and> has_bigint (JObj options) then Inl stringify_error
        else
          Inr (file,
               \<lparr>req_url = base @ ''/convert/upload-json-to-zip'', req_method = ''POST'',
                req_headers = [],
                req_body = FormBody
                  ([(''file'', FormFile file)]
                   @ (case outputFilename of
                        None \<Rightarrow> []
                      | Some name \<Rightarrow> if name \<noteq> [] then [(''filename'', FormString name)] else [])
                   @ (if options \<noteq> [] then [(''options'', FormJson (JObj options))] else []))\<rparr>))"

definition uploadAndConvertJson ::
  "string \<Rightarrow> (request \<Rightarrow> fetch_outcome) \<Rightarrow> jsfile option \<Rightarrow> string option \<Rightarrow> jsobject option
     \<Rightarrow> js_error + jsval" where
  "uploadAndConvertJson base fetch file_arg outputFilename options_arg =
    (let options = (case options_arg of None \<Rightarrow> [] | Some obj \<Rightarrow> obj);
         attempt =
           (case uploadAndConvertJson_request base file_arg outputFilename options of
              Inl e \<Rightarrow> Inl e
            | Inr (file, req) \<Rightarrow>
               (case fetchWithTimeout fetch req None of
                  Inl e \<Rightarrow> Inl e
                | Inr response \<Rightarrow>
                   (case handleResponse response of
                      Inl e \<Rightarrow> Inl e
                    | Inr r \<Rightarrow>
                       (let filename =
                              (case outputFilename of
                                 None \<Rightarrow> replace_first ''.json'' [] (file_name file) @ ''.zip''
                               | Some name \<Rightarrow>
                                   if name \<noteq> [] then name
                                   else replace_first ''.json'' [] (file_name file) @ ''.zip'')
                        in Inr (JObj [(''success'', JBool True),
                                      (''originalFile'', JStr (file_name file)),
                                      (''outputFile'', JStr filename),
                                      (''size'', js_int (resp_size response))])))))
     in case attempt of
          Inl error \<Rightarrow> Inl (rethrow ''Failed to upload and convert JSON file'' error)
        | Inr v \<Rightarrow> Inr v)"

subsection \<open>getConversionStatus\<close>

definition getConversionStatus_request :: "string \<Rightarrow> string \<Rightarrow> js_error + request" where
  "getConversionStatus_request base jobId =
    (if jobId = [] then Inl (ApiError (JStr ''Job ID is required'') 400 JNull)
     else Inr \<lparr>req_url = base @ ''/convert/status/'' @ jobId, req_method = ''GET'',
               req_headers = [], req_body = NoBody\<rparr>)"

text \<open>\<open>await response.json()\<close>\<close>

definition response_json :: "response \<Rightarrow> js_error + jsval" where
  "response_json response =
    (case JSON_parse (resp_text response) of
       None \<Rightarrow> Inl (OtherError ''SyntaxError'' syntax_error_message)
     | Some v \<Rightarrow> Inr v)"

definition getConversionStatus ::
  "string \<Rightarrow> (request \<Rightarrow> fetch_outcome) \<Rightarrow> string \<Rightarrow> js_error + jsval" where
  "getConversionStatus base fetch jobId =
    (let attempt =
           (case getConversionStatus_request base jobId of
              Inl e \<Rightarrow> Inl e
            | Inr req \<Rightarrow>
               (case fetchWithTimeout fetch req None of
                  Inl e \<Rightarrow> Inl e
                | Inr response \<Rightarrow>
                   (case handleResponse response of
                      Inl e \<Rightarrow> Inl e
                    | Inr r \<Rightarrow> response_json response)))
     in case attempt of
          Inl error \<Rightarrow> Inl (rethrow ''Failed to get conversion status'' error)
        | Inr v \<Rightarrow> Inr v)"

subsection \<open>convertMultipleJsonToZip\<close>

definition convertMultipleJsonToZip_options :: "jsobject \<Rightarrow> jsobject" where
  "convertMultipleJsonToZip_options options =
    put_all
      [(''compression'', js_or (option_value options ''compression'') (JStr ''DEFLATE'')),
       (''compressionLevel'', js_or (option_value options ''compressionLevel'') (js_int 6)),
       (''createSeparateFiles'',
          js_or (option_value options ''createSeparateFiles'') (JBool True)),
       (''fileNaming'', js_or (option_value options ''fileNaming'') (JStr ''auto''))]
      options"

definition convertMultipleJsonToZip_request ::
  "string \<Rightarrow> jsval \<Rightarrow> string \<Rightarrow> jsobject \<Rightarrow> js_error + request" where
  "convertMultipleJsonToZip_request base jsonArray filename options =
    (if (case jsonArray of JArr vs \<Rightarrow> vs = [] | _ \<Rightarrow> True) then
       Inl (ApiError (JStr ''Please provide a non-empty array of JSON objects'') 400 JNull)
     else
       (let requestBody =
              JObj [(''data'', jsonArray), (''filename'', JStr filename),
                    (''options'', JObj (convertMultipleJsonToZip_options options))]
        in if has_bigint requestBody then Inl stringify_error
           else Inr \<lparr>req_url = base @ ''/convert/batch-json-to-zip'', req_method = ''POST'',
                     req_headers = [(''Content-Type'', ''application/json'')],
                     req_body = JsonBody requestBody\<rparr>))"

definition array_length :: "jsval \<Rightarrow> nat" where
  "array_length v = (case v of JArr vs \<Rightarrow> length vs | _ \<Rightarrow> 0)"

definition convertMultipleJsonToZip ::
  "string \<Rightarrow> (request \<Rightarrow> fetch_outcome) \<Rightarrow> jsval \<Rightarrow> string option \<Rightarrow> jsobject option
     \<Rightarrow> js_error + jsval" where
  "convertMultipleJsonToZip base fetch jsonArray filename_arg options_arg =
    (let filename = (case filename_arg of None \<Rightarrow> ''batch-data.zip'' | Some f \<Rightarrow> f);
         options = (case options_arg of None \<Rightarrow> [] | Some obj \<Rightarrow> obj);
         attempt =
           (case convertMultipleJsonToZip_request base jsonArray filename options of
              Inl e \<Rightarrow> Inl e
            | Inr req \<Rightarrow>
               (case fetchWithTimeout fetch req None of
                  Inl e \<Rightarrow> Inl e
                | Inr response \<Rightarrow>
                   (case handleResponse response of
                      Inl e \<Rightarrow> Inl e
                    | Inr r \<Rightarrow>
                        Inr (JObj [(''success'', JBool True), (''filename'', JStr filename),
                                   (''itemsProcessed'', js_int (array_length jsonArray)),
                                   (''size'', js_int (resp_size response))]))))
     in case attempt of
          Inl error \<Rightarrow>
            Inl (rethrow ''Failed to convert multiple JSON objects to ZIP'' error)
        | Inr v \<Rightarrow> Inr v)"

subsection \<open>validateJsonData of the client, and getSupportedFormats\<close>

definition api_validateJsonData_request :: "string \<Rightarrow> jsval \<Rightarrow> js_error + request" where
  "api_validateJsonData_request base jsonData =
    (if has_bigint (JObj [(''data'', jsonData)]) then Inl stringify_error
     else Inr \<lparr>req_url = base @ ''/validate/json'', req_method = ''POST'',
               req_headers = [(''Content-Type'', ''application/json'')],
               req_body = JsonBody (JObj [(''data'', jsonData)])\<rparr>)"

definition api_validateJsonData ::
  "string \<Rightarrow> (request \<Rightarrow> fetch_outcome) \<Rightarrow> jsval \<Rightarrow> js_error + jsval" where
  "api_validateJsonData base fetch jsonData =
    (let attempt =
           (case api_validateJsonData_request base jsonData of
              Inl e \<Rightarrow> Inl e
            | Inr req \<Rightarrow>
               (case fetchWithTimeout fetch req None of
                  Inl e \<Rightarrow> Inl e
                | Inr response \<Rightarrow>
                   (case handleResponse response of
                      Inl e \<Rightarrow> Inl e
                    | Inr r \<Rightarrow> response_json response)))
     in case attempt of
          Inl error \<Rightarrow> Inl (rethrow ''Failed to validate JSON data'' error)
        | Inr v \<Rightarrow> Inr v)"

definition getSupportedFormats_request :: "string \<Rightarrow> js_error + request" where
  "getSupportedFormats_request base =
    Inr \<lparr>req_url = base @ ''/formats'', req_method = ''GET'', req_headers = [],
          req_body = NoBody\<rparr>"

definition getSupportedFormats ::
  "string \<Rightarrow> (request \<Rightarrow> fetch_outcome) \<Rightarrow> js_error + jsval" where
  "getSupportedFormats base fetch =
    (let attempt =
           (case getSupportedFormats_request base of
              Inl e \<Rightarrow> Inl e
            | Inr req \<Rightarrow>
               (case fetchWithTimeout fetch req None of
                  Inl e \<Rightarrow> Inl e
                | Inr response \<Rightarrow>
                   (case handleResponse response of
                      Inl e \<Rightarrow> Inl e
                    | Inr r \<Rightarrow> response_json response)))
     in case attempt of
          Inl error \<Rightarrow> Inl (rethrow ''Failed to get supported formats'' error)
        | Inr v \<Rightarrow> Inr v)"

subsection \<open>Every operation of the client\<close>

datatype api_call =
    ConvertJsonToZip jsval "string option" "jsobject option"
  | UploadAndConvertJson "jsfile option" "string option" "jsobject option"
  | GetConversionStatus string
  | ConvertMultipleJsonToZip jsval "string option" "jsobject option"
  | ValidateJsonData jsval
  | GetSupportedFormats

fun run_api :: "string \<Rightarrow> (request \<Rightarrow> fetch_outcome) \<Rightarrow> api_call \<Rightarrow> js_error + jsval" where
  "run_api base fetch (ConvertJsonToZip d f opts) = convertJsonToZip base fetch d f opts"
| "run_api base fetch (UploadAndConvertJson file f opts) =
     uploadAndConvertJson base fetch file f opts"
| "run_api base fetch (GetConversionStatus jobId) = getConversionStatus base fetch jobId"
| "run_api base fetch (ConvertMultipleJsonToZip d f opts) =
     convertMultipleJsonToZip base fetch d f opts"
| "run_api base fetch (ValidateJsonData d) = api_validateJsonData base fetch d"
| "run_api base fetch GetSupportedFormats = getSupportedFormats base fetch"

text \<open>What an operation does before its \<open>fetch\<close>.\<close>

fun request_of :: "string \<Rightarrow> api_call \<Rightarrow> js_error + request" where
  "request_of base (ConvertJsonToZip d f opts) =
     convertJsonToZip_request base d (case f of None \<Rightarrow> ''data.zip'' | Some n \<Rightarrow> n)
       (case opts of None \<Rightarrow> [] | Some obj \<Rightarrow> obj)"
| "request_of base (UploadAndConvertJson file f opts) =
     (case uploadAndConvertJson_request base file f
             (case opts of None \<Rightarrow> [] | Some obj \<Rightarrow> obj) of
        Inl e \<Rightarrow> Inl e
      | Inr (checked, req) \<Rightarrow> Inr req)"
| "request_of base (GetConversionStatus jobId) = getConversionStatus_request base jobId"
| "request_of base (ConvertMultipleJsonToZip d f opts) =
     convertMultipleJsonToZip_request base d
       (case f of None \<Rightarrow> ''batch-data.zip'' | Some n \<Rightarrow> n)
       (case opts of None \<Rightarrow> [] | Some obj \<Rightarrow> obj)"
| "request_of base (ValidateJsonData d) = api_validateJsonData_request base d"
| "request_of base GetSupportedFormats = getSupportedFormats_request base"

text \<open>The message an operation gives to an error that is not an \<open>ApiError\<close>.\<close>

fun failure_message :: "api_call \<Rightarrow> string" where
  "failure_message (ConvertJsonToZip d f opts) = ''Failed to convert JSON to ZIP''"
| "failure_message (UploadAndConvertJson file f opts) =
     ''Failed to upload and convert JSON file''"
| "failure_message (GetConversionStatus jobId) = ''Failed to get conversion status''"
| "failure_message (ConvertMultipleJsonToZip d f opts) =
     ''Failed to convert multiple JSON objects to ZIP''"
| "failure_message (ValidateJsonData d) = ''Failed to validate JSON data''"
| "failure_message GetSupportedFormats = ''Failed to get supported formats''"

section \<open>Vocabulary of the specification\<close>

text \<open>
  The definitions of this section are not code of the repository. They name the notions
  the specification uses, so that the theorems below can be stated in its words.
\<close>

subsection \<open>JSON validation\<close>

definition is_object_or_array :: "jsval \<Rightarrow> bool" where
  "is_object_or_array v = (case v of JArr vs \<Rightarrow> True | JObj ps \<Rightarrow> True | _ \<Rightarrow> False)"

definition is_string :: "jsval \<Rightarrow> bool" where
  "is_string v = (case v of JStr s \<Rightarrow> True | _ \<Rightarrow> False)"

text \<open>The two shapes of a validation result: invalid with one error, and valid.\<close>

definition invalid :: "string \<Rightarrow> validation" where
  "invalid msg = \<lparr>isValid = False, errors = [msg]\<rparr>"

definition valid :: validation where
  "valid = \<lparr>isValid = True, errors = []\<rparr>"

subsection \<open>The batch parser\<close>

text \<open>The effects of a file that is processed to the end: it is read, its record pushed.\<close>

definition events_of :: "jsfile \<Rightarrow> event list" where
  "events_of file = [ReadAsText (file_name file), Push (file_name file)]"

subsection \<open>Filenames\<close>

text \<open>No underscore is followed by another.\<close>

fun no_double_underscore :: "string \<Rightarrow> bool" where
  "no_double_underscore (a # b # cs) =
     (\<not> (a = CHR ''_'' \<and> b = CHR ''_'') \<and> no_double_underscore (b # cs))"
| "no_double_underscore s = True"

subsection \<open>The options of a conversion\<close>



subsection \<open>Failures of a request\<close>

text \<open>
  A request exceeds the timeout when \<open>fetch\<close> has not settled by the time the timer
  fires; it fails on the network when \<open>fetch\<close> rejects before that.
\<close>

definition timed_out :: "(request \<Rightarrow> fetch_outcome) \<Rightarrow> request \<Rightarrow> bool" where
  "timed_out fetch req =
    (case fetch req of
       Responds t r \<Rightarrow> REQUEST_TIMEOUT \<le> t
     | Fails t m \<Rightarrow> REQUEST_TIMEOUT \<le> t
     | Hangs \<Rightarrow> True)"

definition network_failed :: "(request \<Rightarrow> fetch_outcome) \<Rightarrow> request \<Rightarrow> bool" where
  "network_failed fetch req =
    (case fetch req of
       Responds t r \<Rightarrow> False
     | Fails t m \<Rightarrow> t < REQUEST_TIMEOUT
     | Hangs \<Rightarrow> False)"





section \<open>Sample inputs\<close>

text \<open>Three files: valid JSON, text that is not JSON, and valid JSON declared as plain text.\<close>

definition valid_file :: jsfile where
  "valid_file =
    \<lparr>file_name = ''a.json'', file_type = ''application/json'', file_size = 7,
     file_text = Some ''{\"a\":1}''\<rparr>"

definition invalid_file :: jsfile where
  "invalid_file =
    \<lparr>file_name = ''b.json'', file_type = ''application/json'', file_size = 8,
     file_text = Some ''not json''\<rparr>"

definition text_file :: jsfile where
  "text_file =
    \<lparr>file_name = ''c.txt'', file_type = ''text/plain'', file_size = 5,
     file_text = Some ''[1,2]''\<rparr>"


text \<open>
  A service that never answers, one that cannot be reached, and two that answer an error:
  one with a JSON body, one with plain text.
\<close>

definition api_base :: string where
  "api_base = ''http://localhost:3001/api''"

definition fetch_never :: "request \<Rightarrow> fetch_outcome" where
  "fetch_never req = Hangs"

definition fetch_offline :: "request \<Rightarrow> fetch_outcome" where
  "fetch_offline req = Fails 120 ''Failed to fetch''"





section \<open>Facts about the platform's JSON.parse\<close>

text \<open>
  Every parser returns a rest that is shorter than its input, so the fuel that
  \<open>parse_text\<close> supplies, one more than twice the length of the text, is never used up.
\<close>

lemma length_skip_ws: "length (skip_ws s) \<le> length s"
  by (simp add: skip_ws_def length_dropWhile_le)

lemma starts_with_skip_tl: "starts_with c (skip_ws s) \<Longrightarrow> length (tl (skip_ws s)) < length s"
proof -
  assume "starts_with c (skip_ws s)"
  then have "skip_ws s \<noteq> []" by (auto simp: starts_with_def)
  then have "length (tl (skip_ws s)) < length (skip_ws s)" by simp
  with length_skip_ws [of s] show ?thesis by simp
qed

lemma parse_chars_shrinks: "parse_chars s = Some (t, r) \<Longrightarrow> length r < length s"
proof (induction s arbitrary: t r rule: parse_chars.induct)
  case 1
  then show ?case by simp
next
  case (2 c cs)
  show ?case
  proof (cases "c = CHR 0x22")
    case True
    with "2.prems" show ?thesis by simp
  next
    case q: False
    show ?thesis
    proof (cases "c = CHR 0x5C")
      case False
      with q "2.prems" obtain t' where p: "parse_chars cs = Some (t', r)"
        by (auto split: if_splits option.splits)
      have "\<not> of_char c < (32::nat)" using q False "2.prems" by (auto split: if_splits)
      from "2.IH"(3) [OF q False this p] show ?thesis by simp
    next
      case True
      show ?thesis
      proof (cases cs)
        case Nil
        with q True "2.prems" show ?thesis by simp
      next
        case (Cons e rest)
        show ?thesis
        proof (cases "e = CHR ''u''")
          case u: True
          with q True Cons "2.prems" obtain n t' where
            n: "hex4 (take 4 rest) = Some n" and p: "parse_chars (drop 4 rest) = Some (t', r)"
            by (auto split: option.splits)
          from "2.IH"(1) [OF q True Cons u n p] have "length r < length (drop 4 rest)" .
          with Cons show ?thesis by simp
        next
          case nu: False
          with q True Cons "2.prems" obtain d t' where
            d: "unescape e = Some d" and p: "parse_chars rest = Some (t', r)"
            by (auto split: option.splits)
          from "2.IH"(2) [OF q True Cons nu d p] have "length r < length rest" .
          with Cons show ?thesis by simp
        qed
      qed
    qed
  qed
qed

lemma parse_int_part_shrinks: "parse_int_part s = Some (ip, r) \<Longrightarrow> length r < length s"
proof -
  assume a: "parse_int_part s = Some (ip, r)"
  then have ne: "takeWhile is_digit s \<noteq> []" and r: "r = dropWhile is_digit s"
    by (simp_all add: parse_int_part_def Let_def split: if_splits)
  have "length (takeWhile is_digit s) + length (dropWhile is_digit s) = length s"
    by (metis length_append takeWhile_dropWhile_id)
  moreover from ne have "0 < length (takeWhile is_digit s)" by simp
  ultimately show ?thesis unfolding r by linarith
qed

lemma parse_frac_shrinks: "parse_frac s = Some (fp, r) \<Longrightarrow> length r \<le> length s"
proof -
  assume a: "parse_frac s = Some (fp, r)"
  have "length (dropWhile is_digit (tl s)) \<le> length s"
    using length_dropWhile_le [of is_digit "tl s"] by simp
  with a show ?thesis
    by (simp add: parse_frac_def Let_def split: if_splits)
qed

lemma parse_exp_shrinks: "parse_exp s = Some (e, r) \<Longrightarrow> length r \<le> length s"
proof -
  assume a: "parse_exp s = Some (e, r)"
  have 1: "length (dropWhile is_digit (tl s)) \<le> length s"
    using length_dropWhile_le [of is_digit "tl s"] by simp
  have 2: "length (dropWhile is_digit (tl (tl s))) \<le> length s"
    using length_dropWhile_le [of is_digit "tl (tl s)"] by simp
  from a 1 2 show ?thesis
    by (simp add: parse_exp_def Let_def split: if_splits)
qed

lemma parse_number_shrinks:
  assumes "parse_number s = Some (x, r)"
  shows "length r < length s"
proof -
  from assms obtain ip s2 fp s3 e where
    i: "parse_int_part (if starts_with (CHR ''-'') s then tl s else s) = Some (ip, s2)" and
    f: "parse_frac s2 = Some (fp, s3)" and
    x: "parse_exp s3 = Some (e, r)"
    by (auto simp: parse_number_def Let_def split: option.splits)
  have "length (if starts_with (CHR ''-'') s then tl s else s) \<le> length s" by simp
  with parse_int_part_shrinks [OF i] parse_frac_shrinks [OF f] parse_exp_shrinks [OF x]
  show ?thesis by simp
qed

lemma take_drop_shorter:
  assumes "take k s = w" and "length w = k" and "0 < k"
  shows "length (drop k s) < length s"
proof -
  from assms(1) have "length w = min (length s) k" by (metis length_take)
  with assms(2) have "k \<le> length s" by simp
  with assms(3) show ?thesis by simp
qed

lemma parse_value_obj:
  "parse_value (Suc n) (CHR ''{'' # cs) =
    (if starts_with (CHR ''}'') (skip_ws cs) then Parsed (JObj []) (tl (skip_ws cs))
     else (case parse_members n cs of
             Parsed ms r \<Rightarrow> Parsed (JObj (put_all [] ms)) r
           | SyntaxError \<Rightarrow> SyntaxError
           | OutOfFuel \<Rightarrow> OutOfFuel))"
  by simp

lemma parse_value_arr:
  "parse_value (Suc n) (CHR ''['' # cs) =
    (if starts_with (CHR '']'') (skip_ws cs) then Parsed (JArr []) (tl (skip_ws cs))
     else (case parse_elements n cs of
             Parsed vs r \<Rightarrow> Parsed (JArr vs) r
           | SyntaxError \<Rightarrow> SyntaxError
           | OutOfFuel \<Rightarrow> OutOfFuel))"
  by simp

lemma parse_value_str:
  "parse_value (Suc n) (CHR 0x22 # cs) =
    (case parse_chars cs of None \<Rightarrow> SyntaxError | Some (t, r) \<Rightarrow> Parsed (JStr t) r)"
  by simp

lemma parse_value_lit:
  "c \<noteq> CHR ''{'' \<Longrightarrow> c \<noteq> CHR ''['' \<Longrightarrow> c \<noteq> CHR 0x22 \<Longrightarrow>
   parse_value (Suc n) (c # cs) =
    (if take 4 (c # cs) = ''true'' then Parsed (JBool True) (drop 4 (c # cs))
     else if take 5 (c # cs) = ''false'' then Parsed (JBool False) (drop 5 (c # cs))
     else if take 4 (c # cs) = ''null'' then Parsed JNull (drop 4 (c # cs))
     else (case parse_number (c # cs) of
             None \<Rightarrow> SyntaxError
           | Some (x, r) \<Rightarrow> Parsed (JNum x) r))"
  by simp

lemma parse_value_step_shrinks:
  assumes IHe: "\<forall>s vs r. parse_elements n s = Parsed vs r \<longrightarrow> length r < length s"
    and IHm: "\<forall>s ms r. parse_members n s = Parsed ms r \<longrightarrow> length r < length s"
    and a: "parse_value (Suc n) s = Parsed v r"
  shows "length r < length s"
proof (cases s)
  case Nil
  with a show ?thesis by simp
next
  case (Cons c cs)
  consider (obj) "c = CHR ''{''" | (arr) "c = CHR ''[''" | (str) "c = CHR 0x22"
    | (lit) "c \<noteq> CHR ''{''" "c \<noteq> CHR ''[''" "c \<noteq> CHR 0x22" by blast
  then show ?thesis
  proof cases
    case obj
    show ?thesis
    proof (cases "starts_with (CHR ''}'') (skip_ws cs)")
      case True
      with a have "r = tl (skip_ws cs)" unfolding Cons obj parse_value_obj by simp
      with starts_with_skip_tl [OF True] Cons show ?thesis by simp
    next
      case False
      with a obtain ms where "parse_members n cs = Parsed ms r"
        unfolding Cons obj parse_value_obj by (cases "parse_members n cs") simp_all
      from IHm [rule_format, OF this] Cons show ?thesis by simp
    qed
  next
    case arr
    show ?thesis
    proof (cases "starts_with (CHR '']'') (skip_ws cs)")
      case True
      with a have "r = tl (skip_ws cs)" unfolding Cons arr parse_value_arr by simp
      with starts_with_skip_tl [OF True] Cons show ?thesis by simp
    next
      case False
      with a obtain vs where "parse_elements n cs = Parsed vs r"
        unfolding Cons arr parse_value_arr by (cases "parse_elements n cs") simp_all
      from IHe [rule_format, OF this] Cons show ?thesis by simp
    qed
  next
    case str
    with a obtain t where "parse_chars cs = Some (t, r)"
      unfolding Cons str parse_value_str by (cases "parse_chars cs") auto
    from parse_chars_shrinks [OF this] Cons show ?thesis by simp
  next
    case lit
    note eq = parse_value_lit [OF lit, of n cs]
    show ?thesis
    proof (cases "take 4 s = ''true''")
      case True
      with a eq Cons have "r = drop 4 s" by simp
      with take_drop_shorter [OF True] show ?thesis by simp
    next
      case nt: False
      show ?thesis
      proof (cases "take 5 s = ''false''")
        case True
        with a eq Cons nt have "r = drop 5 s" by simp
        with take_drop_shorter [OF True] show ?thesis by simp
      next
        case nf: False
        show ?thesis
        proof (cases "take 4 s = ''null''")
          case True
          with a eq Cons nt nf have "r = drop 4 s" by simp
          with take_drop_shorter [OF True] show ?thesis by simp
        next
          case nn: False
          with a eq Cons nt nf obtain x where "parse_number s = Some (x, r)"
            by (cases "parse_number s") auto
          then show ?thesis by (rule parse_number_shrinks)
        qed
      qed
    qed
  qed
qed

lemma parse_elements_step_shrinks:
  assumes IHv: "\<forall>s v r. parse_value n s = Parsed v r \<longrightarrow> length r < length s"
    and IHe: "\<forall>s vs r. parse_elements n s = Parsed vs r \<longrightarrow> length r < length s"
    and a: "parse_elements (Suc n) s = Parsed vs r"
  shows "length r < length s"
proof (cases "parse_value n (skip_ws s)")
  case (Parsed v r1)
  from IHv [rule_format, OF Parsed] length_skip_ws [of s] have l1: "length r1 < length s" by simp
  show ?thesis
  proof (cases "starts_with (CHR '','') (skip_ws r1)")
    case True
    with a Parsed obtain vs' where "parse_elements n (tl (skip_ws r1)) = Parsed vs' r"
      by (cases "parse_elements n (tl (skip_ws r1))") simp_all
    from IHe [rule_format, OF this] starts_with_skip_tl [OF True] l1 show ?thesis by simp
  next
    case False
    show ?thesis
    proof (cases "starts_with (CHR '']'') (skip_ws r1)")
      case True
      with a Parsed False have "r = tl (skip_ws r1)" by simp
      with starts_with_skip_tl [OF True] l1 show ?thesis by simp
    next
      case nb: False
      with a Parsed False show ?thesis by simp
    qed
  qed
next
  case SyntaxError
  with a show ?thesis by simp
next
  case OutOfFuel
  with a show ?thesis by simp
qed

lemma parse_members_unfold:
  "parse_members (Suc n) s =
    (if starts_with (CHR 0x22) (skip_ws s) then
       (case parse_chars (tl (skip_ws s)) of
          None \<Rightarrow> SyntaxError
        | Some (k, r) \<Rightarrow>
            (if starts_with (CHR '':'') (skip_ws r) then
               (case parse_value n (skip_ws (tl (skip_ws r))) of
                  Parsed v r' \<Rightarrow>
                    (if starts_with (CHR '','') (skip_ws r') then
                       (case parse_members n (tl (skip_ws r')) of
                          Parsed ms r'' \<Rightarrow> Parsed ((k, v) # ms) r''
                        | SyntaxError \<Rightarrow> SyntaxError
                        | OutOfFuel \<Rightarrow> OutOfFuel)
                     else if starts_with (CHR ''}'') (skip_ws r') then
                       Parsed [(k, v)] (tl (skip_ws r'))
                     else SyntaxError)
                | SyntaxError \<Rightarrow> SyntaxError
                | OutOfFuel \<Rightarrow> OutOfFuel)
             else SyntaxError))
     else SyntaxError)"
  by simp

lemma parse_members_step_shrinks:
  assumes IHv: "\<forall>s v r. parse_value n s = Parsed v r \<longrightarrow> length r < length s"
    and IHm: "\<forall>s ms r. parse_members n s = Parsed ms r \<longrightarrow> length r < length s"
    and a: "parse_members (Suc n) s = Parsed ms r"
  shows "length r < length s"
proof (cases "starts_with (CHR 0x22) (skip_ws s)")
  case False
  with a show ?thesis by simp
next
  case q: True
  show ?thesis
  proof (cases "parse_chars (tl (skip_ws s))")
    case None
    with a q show ?thesis by simp
  next
    case (Some kr)
    obtain k r1 where kr: "kr = (k, r1)" by (cases kr)
    from parse_chars_shrinks [of "tl (skip_ws s)" k r1] Some kr starts_with_skip_tl [OF q]
    have l1: "length r1 < length s" by simp
    show ?thesis
    proof (cases "starts_with (CHR '':'') (skip_ws r1)")
      case False
      with a q Some kr show ?thesis by simp
    next
      case col: True
      show ?thesis
      proof (cases "parse_value n (skip_ws (tl (skip_ws r1)))")
        case SyntaxError
        with a q Some kr col show ?thesis by simp
      next
        case OutOfFuel
        with a q Some kr col show ?thesis by simp
      next
        case (Parsed v r2)
        from IHv [rule_format, OF Parsed] length_skip_ws [of "tl (skip_ws r1)"] starts_with_skip_tl [OF col] l1
        have l2: "length r2 < length s" by simp
        show ?thesis
        proof (cases "starts_with (CHR '','') (skip_ws r2)")
          case True
          with a q Some kr col Parsed obtain ms' where
            "parse_members n (tl (skip_ws r2)) = Parsed ms' r"
            by (cases "parse_members n (tl (skip_ws r2))") simp_all
          from IHm [rule_format, OF this] starts_with_skip_tl [OF True] l2 show ?thesis by simp
        next
          case False
          show ?thesis
          proof (cases "starts_with (CHR ''}'') (skip_ws r2)")
            case True
            with a q Some kr col Parsed False have "r = tl (skip_ws r2)" by simp
            with starts_with_skip_tl [OF True] l2 show ?thesis by simp
          next
            case nb: False
            with a q Some kr col Parsed False show ?thesis by simp
          qed
        qed
      qed
    qed
  qed
qed

lemma parse_shrinks:
  "(\<forall>s v r. parse_value n s = Parsed v r \<longrightarrow> length r < length s) \<and>
   (\<forall>s vs r. parse_elements n s = Parsed vs r \<longrightarrow> length r < length s) \<and>
   (\<forall>s ms r. parse_members n s = Parsed ms r \<longrightarrow> length r < length s)"
proof (induction n)
  case 0
  show ?case by simp
next
  case (Suc n)
  then have IHv: "\<forall>s v r. parse_value n s = Parsed v r \<longrightarrow> length r < length s"
    and IHe: "\<forall>s vs r. parse_elements n s = Parsed vs r \<longrightarrow> length r < length s"
    and IHm: "\<forall>s ms r. parse_members n s = Parsed ms r \<longrightarrow> length r < length s"
    by simp_all
  show ?case
    using parse_value_step_shrinks [OF IHe IHm] parse_elements_step_shrinks [OF IHv IHe]
      parse_members_step_shrinks [OF IHv IHm]
    by blast
qed

lemma parse_value_shrinks: "parse_value n s = Parsed v r \<Longrightarrow> length r < length s"
  using parse_shrinks by blast

lemma parse_value_step_fuel:
  assumes IHe: "\<forall>s. 2 * length s + 1 < n \<longrightarrow> parse_elements n s \<noteq> OutOfFuel"
    and IHm: "\<forall>s. 2 * length s + 1 < n \<longrightarrow> parse_members n s \<noteq> OutOfFuel"
    and a: "2 * length s < Suc n"
  shows "parse_value (Suc n) s \<noteq> OutOfFuel"
proof (cases s)
  case Nil
  then show ?thesis by simp
next
  case (Cons c cs)
  with a have l: "2 * length cs + 1 < n" by simp
  consider (obj) "c = CHR ''{''" | (arr) "c = CHR ''[''" | (str) "c = CHR 0x22"
    | (lit) "c \<noteq> CHR ''{''" "c \<noteq> CHR ''[''" "c \<noteq> CHR 0x22" by blast
  then show ?thesis
  proof cases
    case obj
    from IHm l have "parse_members n cs \<noteq> OutOfFuel" by simp
    then show ?thesis
      unfolding Cons obj parse_value_obj by (cases "parse_members n cs") simp_all
  next
    case arr
    from IHe l have "parse_elements n cs \<noteq> OutOfFuel" by simp
    then show ?thesis
      unfolding Cons arr parse_value_arr by (cases "parse_elements n cs") simp_all
  next
    case str
    show ?thesis
      unfolding Cons str parse_value_str by (cases "parse_chars cs") auto
  next
    case lit
    show ?thesis
      unfolding Cons parse_value_lit [OF lit] by (cases "parse_number (c # cs)") auto
  qed
qed

lemma parse_elements_step_fuel:
  assumes IHv: "\<forall>s. 2 * length s < n \<longrightarrow> parse_value n s \<noteq> OutOfFuel"
    and IHe: "\<forall>s. 2 * length s + 1 < n \<longrightarrow> parse_elements n s \<noteq> OutOfFuel"
    and a: "2 * length s + 1 < Suc n"
  shows "parse_elements (Suc n) s \<noteq> OutOfFuel"
proof (cases "parse_value n (skip_ws s)")
  case (Parsed v r1)
  from parse_value_shrinks [OF Parsed] length_skip_ws [of s] have l1: "length r1 < length s"
    by simp
  show ?thesis
  proof (cases "starts_with (CHR '','') (skip_ws r1)")
    case True
    from starts_with_skip_tl [OF True] l1 a have "2 * length (tl (skip_ws r1)) + 1 < n"
      by simp
    with IHe have "parse_elements n (tl (skip_ws r1)) \<noteq> OutOfFuel" by simp
    with Parsed True show ?thesis
      by (cases "parse_elements n (tl (skip_ws r1))") simp_all
  next
    case False
    with Parsed show ?thesis by simp
  qed
next
  case SyntaxError
  then show ?thesis by simp
next
  case OutOfFuel
  from a length_skip_ws [of s] have "2 * length (skip_ws s) < n" by simp
  with IHv OutOfFuel show ?thesis by simp
qed

lemma parse_members_step_fuel:
  assumes IHv: "\<forall>s. 2 * length s < n \<longrightarrow> parse_value n s \<noteq> OutOfFuel"
    and IHm: "\<forall>s. 2 * length s + 1 < n \<longrightarrow> parse_members n s \<noteq> OutOfFuel"
    and a: "2 * length s + 1 < Suc n"
  shows "parse_members (Suc n) s \<noteq> OutOfFuel"
proof (cases "starts_with (CHR 0x22) (skip_ws s)")
  case False
  then show ?thesis by simp
next
  case q: True
  show ?thesis
  proof (cases "parse_chars (tl (skip_ws s))")
    case None
    with q show ?thesis by simp
  next
    case (Some kr)
    obtain k r1 where kr: "kr = (k, r1)" by (cases kr)
    from parse_chars_shrinks [of "tl (skip_ws s)" k r1] Some kr starts_with_skip_tl [OF q]
    have l1: "length r1 < length s" by simp
    show ?thesis
    proof (cases "starts_with (CHR '':'') (skip_ws r1)")
      case False
      with q Some kr show ?thesis by simp
    next
      case col: True
      from length_skip_ws [of "tl (skip_ws r1)"] starts_with_skip_tl [OF col] l1
      have l1': "length (skip_ws (tl (skip_ws r1))) < length s" by simp
      show ?thesis
      proof (cases "parse_value n (skip_ws (tl (skip_ws r1)))")
        case SyntaxError
        with q Some kr col show ?thesis by simp
      next
        case OutOfFuel
        from l1' a have "2 * length (skip_ws (tl (skip_ws r1))) < n" by simp
        with IHv OutOfFuel show ?thesis by simp
      next
        case (Parsed v r2)
        from parse_value_shrinks [OF Parsed] l1' have l2: "length r2 < length s" by simp
        show ?thesis
        proof (cases "starts_with (CHR '','') (skip_ws r2)")
          case True
          from starts_with_skip_tl [OF True] l2 a have "2 * length (tl (skip_ws r2)) + 1 < n"
            by simp
          with IHm have "parse_members n (tl (skip_ws r2)) \<noteq> OutOfFuel" by simp
          with q Some kr col Parsed True show ?thesis
            by (cases "parse_members n (tl (skip_ws r2))") simp_all
        next
          case False
          with q Some kr col Parsed show ?thesis by simp
        qed
      qed
    qed
  qed
qed

lemma parse_fuel:
  "(\<forall>s. 2 * length s < n \<longrightarrow> parse_value n s \<noteq> OutOfFuel) \<and>
   (\<forall>s. 2 * length s + 1 < n \<longrightarrow> parse_elements n s \<noteq> OutOfFuel) \<and>
   (\<forall>s. 2 * length s + 1 < n \<longrightarrow> parse_members n s \<noteq> OutOfFuel)"
proof (induction n)
  case 0
  show ?case by simp
next
  case (Suc n)
  then have IHv: "\<forall>s. 2 * length s < n \<longrightarrow> parse_value n s \<noteq> OutOfFuel"
    and IHe: "\<forall>s. 2 * length s + 1 < n \<longrightarrow> parse_elements n s \<noteq> OutOfFuel"
    and IHm: "\<forall>s. 2 * length s + 1 < n \<longrightarrow> parse_members n s \<noteq> OutOfFuel"
    by simp_all
  show ?case
    using parse_value_step_fuel [OF IHe IHm] parse_elements_step_fuel [OF IHv IHe]
      parse_members_step_fuel [OF IHv IHm]
    by blast
qed

lemma fuel_suffices: "parse_text s \<noteq> OutOfFuel"
proof -
  have "2 * length (skip_ws s) < Suc (length s + length s)"
    using length_skip_ws [of s] by simp
  with parse_fuel show ?thesis unfolding parse_text_def by blast
qed

lemma JSON_parse_None_iff:
  "JSON_parse s = None \<longleftrightarrow>
     parse_text s = SyntaxError \<or> (\<exists>v r. parse_text s = Parsed v r \<and> skip_ws r \<noteq> [])"
  using fuel_suffices [of s] by (cases "parse_text s") (simp_all add: JSON_parse_def)

lemma JSON_parse_empty: "JSON_parse [] = None"
  by (simp add: JSON_parse_def parse_text_def skip_ws_def)

section \<open>Facts about validateJsonData\<close>

lemma typeof_object_iff: "typeof v = ''object'' \<longleftrightarrow> v = JNull \<or> is_object_or_array v"
  by (cases v) (simp_all add: is_object_or_array_def)

lemma validate_falsy: "\<not> truthy data \<Longrightarrow> validateJsonData data = invalid ''Data is required''"
  by (simp add: validateJsonData_def parsed_data_def invalid_def)

lemma validate_bad_text:
  "s \<noteq> [] \<Longrightarrow> JSON_parse s = None \<Longrightarrow> validateJsonData (JStr s) = invalid ''Invalid JSON format''"
  by (simp add: validateJsonData_def parsed_data_def invalid_def isValidJson_def)

lemma validate_text:
  "s \<noteq> [] \<Longrightarrow> JSON_parse s = Some d \<Longrightarrow>
   validateJsonData (JStr s) =
     (if typeof d \<noteq> ''object'' then invalid ''JSON must be an object or array'' else valid)"
  by (simp add: validateJsonData_def parsed_data_def invalid_def valid_def isValidJson_def)

lemma validate_value:
  "truthy data \<Longrightarrow> \<not> is_string data \<Longrightarrow>
   validateJsonData data =
     (if typeof data \<noteq> ''object'' then invalid ''JSON must be an object or array'' else valid)"
  by (cases data) (simp_all add: validateJsonData_def parsed_data_def invalid_def valid_def is_string_def)

section \<open>Facts about the batch parser\<close>

lemma valid_text_parses:
  "isValid (validateJsonData (JStr content)) \<Longrightarrow> \<exists>d. JSON_parse content = Some d"
  by (cases "JSON_parse content")
     (auto simp: validateJsonData_def parsed_data_def isValidJson_def split: if_splits)

lemma process_file_ok:
  assumes "file_ok file"
  shows "\<exists>r. process_file file = (Inr r, events_of file) \<and> record_for file r"
proof -
  from assms obtain content where c: "file_text file = Some content"
    and v: "isValid (validateJsonData (JStr content))"
    by (auto simp: file_ok_def passes_json_def split: option.splits)
  from v obtain d where d: "JSON_parse content = Some d"
    using valid_text_parses by blast
  from assms have t: "validateFileType file None" and s: "validateFileSize file None"
    by (simp_all add: file_ok_def)
  show ?thesis
    using c v d t s by (simp add: process_file_def events_of_def record_for_def)
qed

lemma process_file_fails:
  assumes "\<not> file_ok file"
  shows "\<exists>msg evs. process_file file = (Inl msg, evs) \<and>
           (evs = [] \<or> evs = [ReadAsText (file_name file)])"
proof (cases "validateFileType file None \<and> validateFileSize file None")
  case False
  then show ?thesis by (auto simp: process_file_def)
next
  case True
  with assms have nj: "\<not> passes_json file" by (simp add: file_ok_def)
  show ?thesis
  proof (cases "file_text file")
    case None
    with True show ?thesis by (simp add: process_file_def)
  next
    case (Some content)
    with nj have "\<not> isValid (validateJsonData (JStr content))"
      by (simp add: passes_json_def)
    with True Some show ?thesis by (simp add: process_file_def)
  qed
qed

lemma parse_loop_prefix:
  assumes "list_all file_ok pre"
  shows "\<exists>recs. list_all2 record_for pre recs \<and>
           (\<forall>rest results trace.
              parse_loop (pre @ rest) results trace =
                parse_loop rest (results @ recs) (trace @ concat (map events_of pre)))"
  using assms
proof (induction pre)
  case Nil
  then show ?case by simp
next
  case (Cons f pre)
  then have "file_ok f" and "list_all file_ok pre" by simp_all
  from process_file_ok [OF \<open>file_ok f\<close>] obtain r
    where r: "process_file f = (Inr r, events_of f)" "record_for f r" by blast
  from Cons.IH [OF \<open>list_all file_ok pre\<close>] obtain recs
    where recs: "list_all2 record_for pre recs"
      and step: "\<And>rest results trace.
              parse_loop (pre @ rest) results trace =
                parse_loop rest (results @ recs) (trace @ concat (map events_of pre))"
    by blast
  have "list_all2 record_for (f # pre) (r # recs)" using r recs by simp
  moreover have "\<forall>rest results trace.
      parse_loop ((f # pre) @ rest) results trace =
        parse_loop rest (results @ (r # recs)) (trace @ concat (map events_of (f # pre)))"
    using r step by simp
  ultimately show ?case by blast
qed

section \<open>Facts about the drop zone\<close>

lemma validate_step_rejects:
  "validate_step acceptedTypes maxFileSize (Some (vs, es)) file =
     Some (vs, es @ [\<lparr>err_file = file_name file, err_message = JUndefined\<rparr>])"
  by (simp add: validate_step_def)

lemma validateFiles_fold:
  "foldl (validate_step acceptedTypes maxFileSize) (Some (vs, es)) fileList =
     Some (vs, es @ map (\<lambda>file. \<lparr>err_file = file_name file, err_message = JUndefined\<rparr>) fileList)"
  by (induction fileList arbitrary: es) (simp_all add: validate_step_rejects)

section \<open>Facts about sanitizeFilename\<close>

lemma replace_unsafe_spec: "replace_unsafe s = spec_replace s"
  by (simp add: replace_unsafe_def spec_replace_def)

lemma spec_collapse_run:
  "spec_collapse (CHR ''_'' # cs) = CHR ''_'' # spec_collapse (dropWhile (\<lambda>x. x = CHR ''_'') cs)"
  by (induction cs) simp_all

lemma spec_collapse_other:
  "\<not> (c = CHR ''_'' \<and> starts_with (CHR ''_'') cs) \<Longrightarrow>
   spec_collapse (c # cs) = c # spec_collapse cs"
  by (cases cs) (auto simp: starts_with_def)

lemma collapse_underscores_spec: "collapse_underscores s = spec_collapse s"
proof (induction s rule: collapse_underscores.induct)
  case 1
  show ?case by simp
next
  case (2 c cs)
  show ?case
  proof (cases "c = CHR ''_'' \<and> starts_with (CHR ''_'') cs")
    case True
    then have "collapse_underscores (c # cs) =
                 CHR ''_'' # collapse_underscores (dropWhile (\<lambda>x. x = CHR ''_'') cs)"
      by simp
    also have "\<dots> = CHR ''_'' # spec_collapse (dropWhile (\<lambda>x. x = CHR ''_'') cs)"
      using "2.IH" (1) [OF True] by simp
    also have "\<dots> = spec_collapse (c # cs)"
      using True by (simp add: spec_collapse_run)
    finally show ?thesis .
  next
    case False
    then have "collapse_underscores (c # cs) = c # collapse_underscores cs"
      by auto
    also have "\<dots> = c # spec_collapse cs"
      using "2.IH" (2) [OF False] by simp
    also have "\<dots> = spec_collapse (c # cs)"
      using False by (simp add: spec_collapse_other)
    finally show ?thesis .
  qed
qed

lemma spec_collapse_head: "\<exists>t. spec_collapse (a # cs) = a # t"
  by (induction cs arbitrary: a) auto

lemma no_double_spec_collapse: "no_double_underscore (spec_collapse s)"
proof (induction s rule: spec_collapse.induct)
  case (1 a b cs)
  obtain t where t: "spec_collapse (b # cs) = b # t" using spec_collapse_head by blast
  show ?case
  proof (cases "a = CHR ''_'' \<and> b = CHR ''_''")
    case True
    with 1 show ?thesis by simp
  next
    case False
    with 1 t show ?thesis by auto
  qed
qed simp_all

lemma no_double_tl: "no_double_underscore s \<Longrightarrow> no_double_underscore (tl s)"
  by (induction s rule: no_double_underscore.induct) simp_all

lemma no_double_butlast: "no_double_underscore s \<Longrightarrow> no_double_underscore (butlast s)"
proof (induction s rule: no_double_underscore.induct)
  case (1 a b cs)
  then show ?case by (cases cs) auto
qed simp_all

lemma no_double_end:
  "no_double_underscore (xs @ [a, b]) \<Longrightarrow> \<not> (a = CHR ''_'' \<and> b = CHR ''_'')"
proof (induction xs)
  case Nil
  then show ?case by simp
next
  case (Cons x xs)
  then show ?case by (cases xs) simp_all
qed

lemma drop_leading:
  assumes "no_double_underscore s"
  shows "dropWhile (\<lambda>x. x = CHR ''_'') s = (if starts_with (CHR ''_'') s then tl s else s)"
proof (cases s)
  case Nil
  then show ?thesis by (simp add: starts_with_def)
next
  case (Cons a t)
  show ?thesis
  proof (cases t)
    case Nil
    with Cons show ?thesis by (simp add: starts_with_def)
  next
    case (Cons b t')
    with \<open>s = a # t\<close> assms show ?thesis by (auto simp: starts_with_def)
  qed
qed

lemma drop_trailing:
  assumes "no_double_underscore s"
  shows "rev (dropWhile (\<lambda>x. x = CHR ''_'') (rev s)) =
           (if s \<noteq> [] \<and> last s = CHR ''_'' then butlast s else s)"
proof (cases s rule: rev_cases)
  case Nil
  then show ?thesis by simp
next
  case (snoc ys b)
  show ?thesis
  proof (cases ys rule: rev_cases)
    case Nil
    with snoc show ?thesis by simp
  next
    case (snoc zs a)
    with \<open>s = ys @ [b]\<close> assms have "\<not> (a = CHR ''_'' \<and> b = CHR ''_'')"
      using no_double_end [of zs a b] by simp
    with snoc \<open>s = ys @ [b]\<close> show ?thesis by (auto simp: butlast_append)
  qed
qed

lemma trim_underscore_spec:
  assumes "no_double_underscore s"
  shows "trim_underscore s = spec_trim s"
proof -
  let ?s1 = "if starts_with (CHR ''_'') s then tl s else s"
  have "no_double_underscore ?s1" using assms by (simp add: no_double_tl)
  then have "rev (dropWhile (\<lambda>x. x = CHR ''_'') (rev ?s1)) =
               (if ?s1 \<noteq> [] \<and> last ?s1 = CHR ''_'' then butlast ?s1 else ?s1)"
    by (rule drop_trailing)
  then show ?thesis
    using drop_leading [OF assms] by (simp add: trim_underscore_def spec_trim_def Let_def)
qed

lemma sanitize_refines: "sanitizeFilename s = spec_sanitize s"
  by (simp add: sanitizeFilename_def spec_sanitize_def replace_unsafe_spec
        collapse_underscores_spec trim_underscore_spec no_double_spec_collapse)

lemma set_spec_collapse: "set (spec_collapse s) \<subseteq> set s"
  by (induction s rule: spec_collapse.induct) auto

lemma set_spec_trim: "x \<in> set (spec_trim s) \<Longrightarrow> x \<in> set s"
proof -
  assume "x \<in> set (spec_trim s)"
  then have "x \<in> set (dropWhile (\<lambda>x. x = CHR ''_'') (rev (dropWhile (\<lambda>x. x = CHR ''_'') s)))"
    by (simp add: spec_trim_def)
  then have "x \<in> set (rev (dropWhile (\<lambda>x. x = CHR ''_'') s))"
    by (rule set_dropWhileD)
  then have "x \<in> set (dropWhile (\<lambda>x. x = CHR ''_'') s)"
    by simp
  then show "x \<in> set s"
    by (rule set_dropWhileD)
qed

lemma sanitize_chars:
  assumes "c \<in> set (sanitizeFilename s)"
  shows "is_safe_char c \<or> c = CHR ''_''"
proof -
  from assms have "c \<in> set (spec_trim (spec_collapse (spec_replace s)))"
    by (simp add: sanitize_refines spec_sanitize_def)
  then have "c \<in> set (spec_collapse (spec_replace s))"
    by (rule set_spec_trim)
  then have "c \<in> set (spec_replace s)"
    using set_spec_collapse by (rule rev_subsetD)
  then obtain x where "c = (if is_safe_char x then x else CHR ''_'')"
    unfolding spec_replace_def set_map by (rule imageE)
  then show ?thesis by (cases "is_safe_char x") simp_all
qed

lemma sanitize_no_double: "no_double_underscore (sanitizeFilename s)"
proof -
  let ?r = "collapse_underscores (replace_unsafe s)"
  have nd: "no_double_underscore ?r"
    by (simp add: collapse_underscores_spec no_double_spec_collapse)
  show ?thesis
    unfolding sanitizeFilename_def trim_underscore_def Let_def
    using nd by (simp add: no_double_tl no_double_butlast)
qed

lemma no_double_nth:
  "no_double_underscore s \<Longrightarrow> Suc i < length s \<Longrightarrow>
   \<not> (s ! i = CHR ''_'' \<and> s ! Suc i = CHR ''_'')"
proof (induction s arbitrary: i rule: no_double_underscore.induct)
  case (1 a b cs)
  then show ?case by (cases i) auto
qed simp_all

lemma trailing_hd:
  "rev (dropWhile P (rev xs)) \<noteq> [] \<Longrightarrow> hd (rev (dropWhile P (rev xs))) = hd xs"
proof (induction xs rule: rev_induct)
  case Nil
  then show ?case by simp
next
  case (snoc x xs)
  show ?case
  proof (cases "P x")
    case True
    with snoc have "rev (dropWhile P (rev xs)) \<noteq> []" by simp
    then have "xs \<noteq> []" by auto
    with snoc True show ?thesis by simp
  next
    case False
    then show ?thesis by simp
  qed
qed

lemma spec_trim_edges:
  "\<not> starts_with (CHR ''_'') (spec_trim s) \<and>
   (spec_trim s \<noteq> [] \<longrightarrow> last (spec_trim s) \<noteq> CHR ''_'')"
proof (cases "spec_trim s = []")
  case True
  then show ?thesis by (simp add: starts_with_def)
next
  case False
  define s1 where "s1 = dropWhile (\<lambda>x. x = CHR ''_'') s"
  define t where "t = dropWhile (\<lambda>x. x = CHR ''_'') (rev s1)"
  have trim: "spec_trim s = rev t" by (simp add: spec_trim_def s1_def t_def)
  with False have t_ne: "t \<noteq> []" by simp
  have s1_ne: "s1 \<noteq> []"
  proof
    assume "s1 = []"
    then have "t = []" by (simp add: t_def)
    with t_ne show False by simp
  qed
  have h1: "hd s1 \<noteq> CHR ''_''"
    using s1_ne hd_dropWhile [of "\<lambda>x. x = CHR ''_''" s] unfolding s1_def by simp
  have "rev (dropWhile (\<lambda>x. x = CHR ''_'') (rev s1)) \<noteq> []"
    using t_ne by (simp add: t_def)
  then have "hd (rev (dropWhile (\<lambda>x. x = CHR ''_'') (rev s1))) = hd s1"
    by (rule trailing_hd)
  then have "hd (spec_trim s) = hd s1" by (simp add: trim t_def)
  with h1 False have a: "\<not> starts_with (CHR ''_'') (spec_trim s)"
    by (cases "spec_trim s") (simp_all add: starts_with_def)
  have "hd t \<noteq> CHR ''_''"
    using t_ne hd_dropWhile [of "\<lambda>x. x = CHR ''_''" "rev s1"] unfolding t_def by simp
  with t_ne have b: "last (spec_trim s) \<noteq> CHR ''_''"
    by (simp add: trim last_rev)
  from a b show ?thesis by simp
qed

lemma filter_dropWhile_other:
  "(\<And>x. P x \<Longrightarrow> \<not> Q x) \<Longrightarrow> filter Q (dropWhile P xs) = filter Q xs"
  by (induction xs) auto

lemma filter_spec_trim:
  "filter (\<lambda>c. c \<noteq> CHR ''_'') (spec_trim s) = filter (\<lambda>c. c \<noteq> CHR ''_'') s"
proof -
  have "filter (\<lambda>c. c \<noteq> CHR ''_'') (spec_trim s) =
        rev (filter (\<lambda>c. c \<noteq> CHR ''_'') (dropWhile (\<lambda>x. x = CHR ''_'') (rev (dropWhile (\<lambda>x. x = CHR ''_'') s))))"
    by (simp add: spec_trim_def rev_filter)
  also have "\<dots> = rev (filter (\<lambda>c. c \<noteq> CHR ''_'') (rev (dropWhile (\<lambda>x. x = CHR ''_'') s)))"
    by (simp add: filter_dropWhile_other)
  also have "\<dots> = filter (\<lambda>c. c \<noteq> CHR ''_'') (dropWhile (\<lambda>x. x = CHR ''_'') s)"
    by (simp add: rev_filter)
  also have "\<dots> = filter (\<lambda>c. c \<noteq> CHR ''_'') s"
    by (simp add: filter_dropWhile_other)
  finally show ?thesis .
qed

lemma filter_spec_collapse:
  "filter (\<lambda>c. c \<noteq> CHR ''_'') (spec_collapse s) = filter (\<lambda>c. c \<noteq> CHR ''_'') s"
  by (induction s rule: spec_collapse.induct) auto

lemma underscore_unsafe: "\<not> is_safe_char (CHR ''_'')"
  by (simp add: is_safe_char_def)

lemma filter_spec_replace:
  "filter (\<lambda>c. c \<noteq> CHR ''_'') (spec_replace s) = filter is_safe_char s"
  using underscore_unsafe by (induction s) (auto simp: spec_replace_def)

lemma sanitize_keeps_safe:
  "filter (\<lambda>c. c \<noteq> CHR ''_'') (sanitizeFilename s) = filter is_safe_char s"
  by (simp add: sanitize_refines spec_sanitize_def filter_spec_trim filter_spec_collapse
        filter_spec_replace)

section \<open>Facts about file extensions\<close>

lemma split_on_none: "c \<notin> set s \<Longrightarrow> split_on c s = [s]"
  by (induction s) auto

lemma split_on_length: "length (split_on c s) = Suc (length (filter (\<lambda>x. x = c) s))"
  by (induction s) (auto split: list.splits)

lemma split_on_last: "c \<notin> set suf \<Longrightarrow> last (split_on c (pre @ c # suf)) = suf"
proof (induction pre)
  case Nil
  then show ?case by (simp add: split_on_none)
next
  case (Cons a pre)
  let ?rest = "split_on c (pre @ c # suf)"
  from Cons have IH: "last ?rest = suf" by simp
  have len: "2 \<le> length ?rest" by (simp add: split_on_length)
  then obtain p q qs where ps: "?rest = p # q # qs"
    by (cases ?rest; cases "tl ?rest") auto
  show ?case
  proof (cases "a = c")
    case True
    with IH ps show ?thesis by simp
  next
    case False
    with IH ps show ?thesis by simp
  qed
qed

lemma last_index_from_append:
  "last_index_from c (xs @ ys) i found =
     last_index_from c ys (i + length xs) (last_index_from c xs i found)"
  by (induction xs arbitrary: i found) simp_all

lemma last_index_from_absent: "c \<notin> set s \<Longrightarrow> last_index_from c s i found = found"
  by (induction s arbitrary: i) auto

lemma lastIndexOf_last: "c \<notin> set suf \<Longrightarrow> lastIndexOf (pre @ c # suf) c = int (length pre)"
  by (simp add: lastIndexOf_def last_index_from_append last_index_from_absent)

lemma lastIndexOf_absent: "c \<notin> set s \<Longrightarrow> lastIndexOf s c = - 1"
  by (simp add: lastIndexOf_def last_index_from_absent)

lemma getFileExtension_suffix:
  "CHR ''.'' \<notin> set suf \<Longrightarrow> getFileExtension (pre @ CHR ''.'' # suf) = toLowerCase suf"
proof -
  assume a: "CHR ''.'' \<notin> set suf"
  have "split_on (CHR ''.'') (pre @ CHR ''.'' # suf) \<noteq> []"
    using split_on_length [of "CHR ''.''" "pre @ CHR ''.'' # suf"] by auto
  then have "pop (split_on (CHR ''.'') (pre @ CHR ''.'' # suf)) = Some suf"
    using split_on_last [OF a, of pre] by (simp add: pop_def)
  then show ?thesis by (simp add: getFileExtension_def)
qed

lemma getFileExtension_no_dot:
  "CHR ''.'' \<notin> set name \<Longrightarrow> getFileExtension name = toLowerCase name"
  by (simp add: getFileExtension_def split_on_none pop_def)

lemma removeFileExtension_suffix:
  "CHR ''.'' \<notin> set suf \<Longrightarrow>
   removeFileExtension (pre @ CHR ''.'' # suf) = (if pre = [] then CHR ''.'' # suf else pre)"
  by (simp add: removeFileExtension_def lastIndexOf_last)

lemma removeFileExtension_no_dot:
  "CHR ''.'' \<notin> set name \<Longrightarrow> removeFileExtension name = name"
  by (simp add: removeFileExtension_def lastIndexOf_absent)

section \<open>Facts about the options of a conversion\<close>








section \<open>Facts about the API client\<close>


lemma rethrow_other: "rethrow msg (OtherError n m) = ApiError (JStr msg) 500 JNull"
  by (simp add: rethrow_def)

lemma rethrow_shape: "\<exists>m s d. rethrow msg e = ApiError m s d"
  by (cases e) (simp_all add: rethrow_def)

lemma caught_shape:
  "(case attempt of Inl error \<Rightarrow> Inl (rethrow msg error) | Inr v \<Rightarrow> Inr v) = Inl e \<Longrightarrow>
   \<exists>m s d. e = ApiError m s d"
  using rethrow_shape [of msg] by (cases attempt) auto

lemma run_api_shape:
  assumes "run_api base fetch call = Inl e"
  shows "\<exists>m s d. e = ApiError m s d"
proof (cases call)
  case (ConvertJsonToZip d f opts)
  with assms have "convertJsonToZip base fetch d f opts = Inl e" by simp
  then show ?thesis unfolding convertJsonToZip_def Let_def by (rule caught_shape)
next
  case (UploadAndConvertJson fl f opts)
  with assms have "uploadAndConvertJson base fetch fl f opts = Inl e" by simp
  then show ?thesis unfolding uploadAndConvertJson_def Let_def by (rule caught_shape)
next
  case (GetConversionStatus jobId)
  with assms have "getConversionStatus base fetch jobId = Inl e" by simp
  then show ?thesis unfolding getConversionStatus_def Let_def by (rule caught_shape)
next
  case (ConvertMultipleJsonToZip d f opts)
  with assms have "convertMultipleJsonToZip base fetch d f opts = Inl e" by simp
  then show ?thesis unfolding convertMultipleJsonToZip_def Let_def by (rule caught_shape)
next
  case (ValidateJsonData d)
  with assms have "api_validateJsonData base fetch d = Inl e" by simp
  then show ?thesis unfolding api_validateJsonData_def Let_def by (rule caught_shape)
next
  case GetSupportedFormats
  with assms have "getSupportedFormats base fetch = Inl e" by simp
  then show ?thesis unfolding getSupportedFormats_def Let_def by (rule caught_shape)
qed



lemma handleResponse_ok: "resp_ok r \<Longrightarrow> handleResponse r = Inr r"
  by (simp add: handleResponse_def)


lemma fetch_timed_out:
  "timed_out fetch req \<Longrightarrow>
   fetchWithTimeout fetch req None = Inl (OtherError ''Error'' ''Request timeout'')"
  by (cases "fetch req") (simp_all add: timed_out_def fetchWithTimeout_def)

lemma fetch_network_failed:
  "network_failed fetch req \<Longrightarrow>
   \<exists>m. fetchWithTimeout fetch req None = Inl (OtherError ''TypeError'' m)"
  by (cases "fetch req") (simp_all add: network_failed_def fetchWithTimeout_def)


lemma run_api_fetch_error:
  assumes "request_of base call = Inr req"
    and "fetchWithTimeout fetch req None = Inl e"
  shows "run_api base fetch call = Inl (rethrow (failure_message call) e)"
proof (cases call)
  case (ConvertJsonToZip d f opts)
  with assms show ?thesis by (simp add: convertJsonToZip_def)
next
  case (UploadAndConvertJson fl f opts)
  with assms show ?thesis
    by (auto simp: uploadAndConvertJson_def split: sum.splits prod.splits)
next
  case (GetConversionStatus jobId)
  with assms show ?thesis by (simp add: getConversionStatus_def)
next
  case (ConvertMultipleJsonToZip d f opts)
  with assms show ?thesis by (simp add: convertMultipleJsonToZip_def)
next
  case (ValidateJsonData d)
  with assms show ?thesis by (simp add: api_validateJsonData_def)
next
  case GetSupportedFormats
  with assms show ?thesis by (simp add: getSupportedFormats_def)
qed


section \<open>Evaluations used by the examples\<close>

lemma parse_valid_text: "JSON_parse ''{\"a\":1}'' = Some (JObj [(''a'', JNum (Dec False 1 0))])"
  by code_simp

lemma parse_invalid_text: "JSON_parse ''not json'' = None"
  by code_simp

lemma parse_array_text:
  "JSON_parse ''[1,2]'' = Some (JArr [JNum (Dec False 1 0), JNum (Dec False 2 0)])"
  by code_simp

lemma parse_null_text: "JSON_parse ''null'' = Some JNull"
  by code_simp

lemma parse_zero_text: "JSON_parse ''0'' = Some (JNum (Dec False 0 0))"
  by code_simp


lemmas file_eval =
  file_ok_def passes_json_def process_file_def validateFileType_def validateFileSize_def
  default_allowedTypes_def default_maxSize_def validateJsonData_def parsed_data_def
  isValidJson_def parseMultipleJsonFiles_def events_of_def record_for_def
  valid_file_def invalid_file_def text_file_def
  parse_valid_text parse_invalid_text parse_array_text

lemma valid_file_ok: "file_ok valid_file"
  by (simp add: file_eval)

lemma invalid_file_fails: "\<not> file_ok invalid_file"
  by (simp add: file_eval)

lemma text_file_ok: "file_ok text_file"
  by (simp add: file_eval)

lemma batch_with_invalid_file:
  "parseMultipleJsonFiles [valid_file, invalid_file] =
     (Inl ''Error processing b.json: Invalid JSON in b.json: Invalid JSON format'',
      [ReadAsText ''a.json'', Push ''a.json'', ReadAsText ''b.json''])"
  by (simp add: file_eval)

lemma batch_of_valid_files:
  "parseMultipleJsonFiles [valid_file, text_file] =
     (Inr [\<lparr>rec_filename = ''a.json'', rec_data = JObj [(''a'', JNum (Dec False 1 0))],
            rec_size = 7\<rparr>,
           \<lparr>rec_filename = ''c.txt'',
            rec_data = JArr [JNum (Dec False 1 0), JNum (Dec False 2 0)], rec_size = 5\<rparr>],
      [ReadAsText ''a.json'', Push ''a.json'', ReadAsText ''c.txt'', Push ''c.txt''])"
  by (simp add: file_eval)

text \<open>
  The text \<open>null\<close> parses to \<open>null\<close>, whose \<open>typeof\<close> is \<open>object\<close>: it is accepted,
  although it is neither an object nor an array.
\<close>

lemma validateJsonData_null_text: "validateJsonData (JStr ''null'') = valid"
  by (simp add: validate_text parse_null_text valid_def)

text \<open>
  A name without a dot has one part, which \<open>pop\<close> returns: the whole name comes back in
  lower case, not the empty string.
\<close>

lemma getFileExtension_noext: "getFileExtension ''noext'' = ''noext''"
  by code_simp

section \<open>The claims\<close>

subsection \<open>C1: the contract of validateJsonData\<close>

text \<open>
  Claim C1 states that an input that is already parsed, or that parses, to a value that
  is neither an object nor an array is answered with \<open>JSON must be an object or array\<close>.
  The number \<open>0\<close> is such a value, and it is answered with \<open>Data is required\<close>: the
  first check of the function, \<open>!data\<close>, takes every falsy value for a missing one.
  The text \<open>null\<close> parses to such a value, and it is accepted.
\<close>

theorem validateJsonData_contract_counterexample:
  "is_object_or_array (JNum (Dec False 0 0)) = False \<and>
   validateJsonData (JNum (Dec False 0 0)) = invalid ''Data is required'' \<and>
   validateJsonData (JNum (Dec False 0 0)) \<noteq> invalid ''JSON must be an object or array'' \<and>
   JSON_parse ''null'' = Some JNull \<and>
   is_object_or_array JNull = False \<and>
   validateJsonData (JStr ''null'') = valid \<and>
   validateJsonData (JStr ''null'') \<noteq> invalid ''JSON must be an object or array''"
  by (simp add: validate_falsy validateJsonData_null_text parse_null_text
        is_object_or_array_def invalid_def valid_def)

text \<open>
  Claim C1, amended. \<open>validateJsonData\<close> returns
  \<^item> \<open>{isValid: false, errors: ["Data is required"]}\<close> for every falsy input
    (\<open>undefined\<close>, \<open>null\<close>, \<open>false\<close>, \<open>0\<close>, \<open>NaN\<close>, the empty string);
  \<^item> invalid with \<open>Invalid JSON format\<close> for a non-empty string that does not parse;
  \<^item> invalid with \<open>JSON must be an object or array\<close> for a string that parses to a
    boolean, a number or a string, and for a truthy input that is not a string, an
    object or an array;
  \<^item> \<open>{isValid: true, errors: []}\<close> for a string that parses to an object or an array,
    and for an object or an array.

  (Nothing is stated here about a string that parses to \<open>null\<close>.)
\<close>

theorem validateJsonData_contract:
  "(\<not> truthy data \<longrightarrow> validateJsonData data = invalid ''Data is required'') \<and>
   (\<forall>s. data = JStr s \<and> s \<noteq> [] \<and> JSON_parse s = None \<longrightarrow>
        validateJsonData data = invalid ''Invalid JSON format'') \<and>
   (\<forall>s d. data = JStr s \<and> JSON_parse s = Some d \<and> d \<noteq> JNull \<and> \<not> is_object_or_array d \<longrightarrow>
        validateJsonData data = invalid ''JSON must be an object or array'') \<and>
   (\<forall>s d. data = JStr s \<and> JSON_parse s = Some d \<and> is_object_or_array d \<longrightarrow>
        validateJsonData data = valid) \<and>
   (truthy data \<and> \<not> is_string data \<and> \<not> is_object_or_array data \<longrightarrow>
        validateJsonData data = invalid ''JSON must be an object or array'') \<and>
   (is_object_or_array data \<longrightarrow> validateJsonData data = valid)"
proof (intro conjI allI impI)
  assume "\<not> truthy data"
  then show "validateJsonData data = invalid ''Data is required''" by (rule validate_falsy)
next
  fix s assume "data = JStr s \<and> s \<noteq> [] \<and> JSON_parse s = None"
  then show "validateJsonData data = invalid ''Invalid JSON format''"
    by (simp add: validate_bad_text)
next
  fix s d
  assume a: "data = JStr s \<and> JSON_parse s = Some d \<and> d \<noteq> JNull \<and> \<not> is_object_or_array d"
  then have "s \<noteq> []" using JSON_parse_empty by auto
  with a show "validateJsonData data = invalid ''JSON must be an object or array''"
    by (simp add: validate_text typeof_object_iff)
next
  fix s d assume a: "data = JStr s \<and> JSON_parse s = Some d \<and> is_object_or_array d"
  then have "s \<noteq> []" using JSON_parse_empty by auto
  with a show "validateJsonData data = valid"
    by (simp add: validate_text typeof_object_iff)
next
  assume a: "truthy data \<and> \<not> is_string data \<and> \<not> is_object_or_array data"
  then have "data \<noteq> JNull" by auto
  with a show "validateJsonData data = invalid ''JSON must be an object or array''"
    by (simp add: validate_value typeof_object_iff)
next
  assume a: "is_object_or_array data"
  then have "truthy data" "\<not> is_string data"
    by (cases data; simp add: is_object_or_array_def is_string_def)+
  with a show "validateJsonData data = valid"
    by (simp add: validate_value typeof_object_iff)
qed

theorem validateJsonData_contract_witness:
  "validateJsonData JNull = invalid ''Data is required'' \<and>
   validateJsonData (JStr ''not json'') = invalid ''Invalid JSON format'' \<and>
   validateJsonData (JStr ''0'') = invalid ''JSON must be an object or array'' \<and>
   validateJsonData (JStr ''{\"a\":1}'') = valid \<and>
   validateJsonData (JNum (Dec False 7 0)) = invalid ''JSON must be an object or array'' \<and>
   validateJsonData (JArr []) = valid"
proof -
  have 1: "validateJsonData JNull = invalid ''Data is required''"
    using validateJsonData_contract [of JNull] by simp
  have 2: "validateJsonData (JStr ''not json'') = invalid ''Invalid JSON format''"
    using validateJsonData_contract [of "JStr ''not json''"] parse_invalid_text by simp
  have 3: "validateJsonData (JStr ''0'') = invalid ''JSON must be an object or array''"
    using validateJsonData_contract [of "JStr ''0''"] parse_zero_text
    by (simp add: is_object_or_array_def)
  have 4: "validateJsonData (JStr ''{\"a\":1}'') = valid"
    using validateJsonData_contract [of "JStr ''{\"a\":1}''"] parse_valid_text
    by (simp add: is_object_or_array_def)
  have 5: "validateJsonData (JNum (Dec False 7 0)) = invalid ''JSON must be an object or array''"
    using validateJsonData_contract [of "JNum (Dec False 7 0)"]
    by (simp add: is_object_or_array_def is_string_def)
  have 6: "validateJsonData (JArr []) = valid"
    using validateJsonData_contract [of "JArr []"] by (simp add: is_object_or_array_def)
  from 1 2 3 4 5 6 show ?thesis by simp
qed

subsection \<open>C2: the batch parser fails fast\<close>

text \<open>
  Claim C2. A file fails when its type or its size is refused, or when no valid JSON is
  got from it (its text is not valid JSON, or it cannot be read). For every list with a
  file that fails, \<open>parseMultipleJsonFiles\<close> rejects at the first such file \<open>f\<close>: the
  message of the error is \<open>Error processing\<close>, the name of \<open>f\<close>, and a reason. A
  rejection carries the message alone, no record of any file. The files before \<open>f\<close>
  were processed, \<open>f\<close> was read at most, and nothing after \<open>f\<close> was touched.
\<close>

theorem parseMultipleJsonFiles_fail_fast:
  assumes "\<not> list_all file_ok files"
  shows "\<exists>pre f post reason evs.
           files = pre @ f # post \<and> list_all file_ok pre \<and> \<not> file_ok f \<and>
           parseMultipleJsonFiles files =
             (Inl (''Error processing '' @ file_name f @ '': '' @ reason),
              concat (map events_of pre) @ evs) \<and>
           (evs = [] \<or> evs = [ReadAsText (file_name f)])"
proof -
  from assms have "\<exists>f \<in> set files. \<not> file_ok f" by (simp add: list_all_iff)
  then obtain pre f post where split: "files = pre @ f # post" and bad: "\<not> file_ok f"
    and good: "\<forall>g \<in> set pre. \<not> \<not> file_ok g"
    using split_list_first_prop [of files "\<lambda>f. \<not> file_ok f"] by blast
  from good have pre_ok: "list_all file_ok pre" by (simp add: list_all_iff)
  from parse_loop_prefix [OF pre_ok] obtain recs where
    step: "\<And>rest results trace.
              parse_loop (pre @ rest) results trace =
                parse_loop rest (results @ recs) (trace @ concat (map events_of pre))"
    by blast
  from process_file_fails [OF bad] obtain msg evs where
    f: "process_file f = (Inl msg, evs)" "evs = [] \<or> evs = [ReadAsText (file_name f)]"
    by blast
  have "parseMultipleJsonFiles files =
          (Inl (''Error processing '' @ file_name f @ '': '' @ msg),
           concat (map events_of pre) @ evs)"
    using split step [of "f # post" "[]" "[]"] f(1) by (simp add: parseMultipleJsonFiles_def)
  with split pre_ok bad f(2) show ?thesis
    by (intro exI [of _ pre] exI [of _ f] exI [of _ post] exI [of _ msg] exI [of _ evs]) simp
qed

theorem parseMultipleJsonFiles_fail_fast_witness:
  "\<not> list_all file_ok [valid_file, invalid_file] \<and>
   (\<exists>reason. fst (parseMultipleJsonFiles [valid_file, invalid_file]) =
      Inl (''Error processing '' @ file_name invalid_file @ '': '' @ reason)) \<and>
   parseMultipleJsonFiles [valid_file, invalid_file] =
     (Inl ''Error processing b.json: Invalid JSON in b.json: Invalid JSON format'',
      [ReadAsText ''a.json'', Push ''a.json'', ReadAsText ''b.json''])"
proof -
  have bad: "\<not> list_all file_ok [valid_file, invalid_file]"
    using invalid_file_fails by simp
  from parseMultipleJsonFiles_fail_fast [OF bad] obtain pre f post reason evs where
    split: "[valid_file, invalid_file] = pre @ f # post" and
    pre_ok: "list_all file_ok pre" and f_bad: "\<not> file_ok f" and
    res: "parseMultipleJsonFiles [valid_file, invalid_file] =
           (Inl (''Error processing '' @ file_name f @ '': '' @ reason),
            concat (map events_of pre) @ evs)"
    by blast
  have "f = invalid_file"
  proof (cases pre)
    case Nil
    with split have "f = valid_file" by simp
    with f_bad valid_file_ok show ?thesis by simp
  next
    case (Cons g pre')
    with split have g: "g = valid_file" and rest: "[invalid_file] = pre' @ f # post" by simp_all
    show ?thesis
    proof (cases pre')
      case Nil
      with rest show ?thesis by simp
    next
      case (Cons h pre'')
      with rest show ?thesis by simp
    qed
  qed
  with res have "\<exists>reason. fst (parseMultipleJsonFiles [valid_file, invalid_file]) =
      Inl (''Error processing '' @ file_name invalid_file @ '': '' @ reason)"
    by (intro exI [of _ reason]) simp
  with bad batch_with_invalid_file show ?thesis by simp
qed

subsection \<open>C3: the batch parser on files that all pass\<close>

text \<open>
  Claim C3. When every file passes the checks of its type, its size and its JSON,
  \<open>parseMultipleJsonFiles\<close> is fulfilled with one record \<open>{filename, data, size}\<close> for
  each file, in the order of the input; the \<open>data\<close> of a record is the text of its file
  parsed as JSON. The files are processed one after the other: the trace of the effects
  is, file by file in the order of the input, the read of the file and then the push of
  its record, so that a file is read only after the record of the file before it is
  complete.
\<close>

theorem parseMultipleJsonFiles_all_ok:
  assumes "list_all file_ok files"
  shows "\<exists>recs. parseMultipleJsonFiles files = (Inr recs, concat (map events_of files)) \<and>
           list_all2 record_for files recs"
proof -
  from parse_loop_prefix [OF assms] obtain recs where
    recs: "list_all2 record_for files recs" and
    step: "\<And>rest results trace.
              parse_loop (files @ rest) results trace =
                parse_loop rest (results @ recs) (trace @ concat (map events_of files))"
    by blast
  from step [of "[]" "[]" "[]"] have
    "parseMultipleJsonFiles files = (Inr recs, concat (map events_of files))"
    by (simp add: parseMultipleJsonFiles_def)
  with recs show ?thesis by (intro exI [of _ recs]) simp
qed

theorem parseMultipleJsonFiles_all_ok_witness:
  "list_all file_ok [valid_file, text_file] \<and>
   (\<exists>recs. parseMultipleJsonFiles [valid_file, text_file] =
             (Inr recs, concat (map events_of [valid_file, text_file])) \<and>
           list_all2 record_for [valid_file, text_file] recs) \<and>
   parseMultipleJsonFiles [valid_file, text_file] =
     (Inr [\<lparr>rec_filename = ''a.json'', rec_data = JObj [(''a'', JNum (Dec False 1 0))],
            rec_size = 7\<rparr>,
           \<lparr>rec_filename = ''c.txt'',
            rec_data = JArr [JNum (Dec False 1 0), JNum (Dec False 2 0)], rec_size = 5\<rparr>],
      [ReadAsText ''a.json'', Push ''a.json'', ReadAsText ''c.txt'', Push ''c.txt''])"
proof -
  have ok: "list_all file_ok [valid_file, text_file]"
    using valid_file_ok text_file_ok by simp
  from ok parseMultipleJsonFiles_all_ok [OF ok] batch_of_valid_files show ?thesis
    by (intro conjI)
qed

subsection \<open>C4: the drop zone and the contract of the file validators\<close>

text \<open>
  \<open>validateFileType\<close> and \<open>validateFileSize\<close> return booleans, and a boolean has no
  property \<open>isValid\<close>. The drop zone reads \<open>typeValidation.isValid\<close>, gets \<open>undefined\<close>,
  and takes every file for one of a wrong type, whatever its type and size are; the
  message it shows for the file, \<open>typeValidation.error\<close>, is \<open>undefined\<close> too.
\<close>

lemma validateFiles_rejects_all:
  "validateFiles acceptedTypes maxFileSize fileList =
     Some ([], map (\<lambda>file. \<lparr>err_file = file_name file, err_message = JUndefined\<rparr>) fileList)"
  by (simp add: validateFiles_def validateFiles_fold)

text \<open>
  Claim C4 fails on the code. The file \<open>a.json\<close>, of type \<open>application/json\<close> and of 7
  bytes, passes both validators under the props \<open>acceptedTypes = ['application/json']\<close>
  and \<open>maxFileSize\<close> of 10 MiB, and the drop zone puts it with the rejected files.
\<close>

theorem validateFiles_rejects_valid_file:
  "validateFileType valid_file (Some [''application/json'']) = True \<and>
   validateFileSize valid_file (Some default_maxSize) = True \<and>
   validateFiles [''application/json''] default_maxSize [valid_file] =
     Some ([], [\<lparr>err_file = ''a.json'', err_message = JUndefined\<rparr>])"
  by (simp add: validateFiles_rejects_all validateFileType_def validateFileSize_def
        valid_file_def default_maxSize_def)

subsection \<open>C5: sanitizeFilename\<close>

text \<open>
  Claim C5 gives \<open>my_file.json\<close> as the result for \<open>my file!!.json\<close>. The space
  becomes one underscore and the two exclamation marks another, which stands before the
  dot, neither at the start nor at the end of the name: the result is \<open>my_file_.json\<close>.
\<close>

theorem sanitizeFilename_example_counterexample:
  "sanitizeFilename ''my file!!.json'' = ''my_file_.json'' \<and>
   sanitizeFilename ''my file!!.json'' \<noteq> ''my_file.json''"
  by code_simp

text \<open>
  Claim C5, amended. \<open>sanitizeFilename\<close> replaces every character outside
  \<open>[a-z0-9.-]\<close> (in either case) with an underscore, collapses every run of underscores
  into one, and trims the underscores at the start and at the end: it computes what the
  three steps of the specification compute, one after the other. So its result consists
  of characters of the class and underscores, no underscore in it is followed by
  another, it neither starts nor ends with an underscore, and without its underscores it
  is the input without the characters outside the class. In particular
  \<open>sanitizeFilename("my file!!.json") = "my_file_.json"\<close>.
\<close>

theorem sanitizeFilename_spec:
  "sanitizeFilename s = spec_sanitize s \<and>
   (\<forall>c \<in> set (sanitizeFilename s). is_safe_char c \<or> c = CHR ''_'') \<and>
   (\<forall>i. Suc i < length (sanitizeFilename s) \<longrightarrow>
        \<not> (sanitizeFilename s ! i = CHR ''_'' \<and> sanitizeFilename s ! Suc i = CHR ''_'')) \<and>
   \<not> starts_with (CHR ''_'') (sanitizeFilename s) \<and>
   (sanitizeFilename s \<noteq> [] \<longrightarrow> last (sanitizeFilename s) \<noteq> CHR ''_'') \<and>
   filter (\<lambda>c. c \<noteq> CHR ''_'') (sanitizeFilename s) = filter is_safe_char s \<and>
   sanitizeFilename ''my file!!.json'' = ''my_file_.json''"
proof (intro conjI ballI allI impI)
  show "sanitizeFilename s = spec_sanitize s" by (rule sanitize_refines)
next
  fix c assume "c \<in> set (sanitizeFilename s)"
  then show "is_safe_char c \<or> c = CHR ''_''" by (rule sanitize_chars)
next
  fix i assume "Suc i < length (sanitizeFilename s)"
  with sanitize_no_double [of s]
  show "\<not> (sanitizeFilename s ! i = CHR ''_'' \<and> sanitizeFilename s ! Suc i = CHR ''_'')"
    by (rule no_double_nth)
next
  show "\<not> starts_with (CHR ''_'') (sanitizeFilename s)"
    using spec_trim_edges [of "spec_collapse (spec_replace s)"]
    by (simp add: sanitize_refines spec_sanitize_def)
next
  assume "sanitizeFilename s \<noteq> []"
  then show "last (sanitizeFilename s) \<noteq> CHR ''_''"
    using spec_trim_edges [of "spec_collapse (spec_replace s)"]
    by (simp add: sanitize_refines spec_sanitize_def)
next
  show "filter (\<lambda>c. c \<noteq> CHR ''_'') (sanitizeFilename s) = filter is_safe_char s"
    by (rule sanitize_keeps_safe)
next
  show "sanitizeFilename ''my file!!.json'' = ''my_file_.json''" by code_simp
qed

theorem sanitizeFilename_spec_witness:
  "spec_sanitize ''my file!!.json'' = ''my_file_.json'' \<and>
   filter is_safe_char ''my file!!.json'' = ''myfile.json'' \<and>
   sanitizeFilename ''my file!!.json'' \<noteq> [] \<and>
   last (sanitizeFilename ''my file!!.json'') \<noteq> CHR ''_'' \<and>
   CHR ''_'' \<in> set (sanitizeFilename ''my file!!.json'') \<and>
   Suc 7 < length (sanitizeFilename ''my file!!.json'') \<and>
   \<not> (sanitizeFilename ''my file!!.json'' ! 7 = CHR ''_'' \<and>
      sanitizeFilename ''my file!!.json'' ! Suc 7 = CHR ''_'')"
proof -
  note t = sanitizeFilename_spec [of "''my file!!.json''"]
  have r: "sanitizeFilename ''my file!!.json'' = spec_sanitize ''my file!!.json''"
    using t by (elim conjE)
  have e: "sanitizeFilename ''my file!!.json'' = ''my_file_.json''"
    using t by (elim conjE)
  have f: "filter (\<lambda>c. c \<noteq> CHR ''_'') (sanitizeFilename ''my file!!.json'') =
      filter is_safe_char ''my file!!.json''"
    using t by (elim conjE)
  have l: "sanitizeFilename ''my file!!.json'' \<noteq> [] \<longrightarrow>
      last (sanitizeFilename ''my file!!.json'') \<noteq> CHR ''_''"
    using t by (elim conjE)
  have n: "\<forall>i. Suc i < length (sanitizeFilename ''my file!!.json'') \<longrightarrow>
      \<not> (sanitizeFilename ''my file!!.json'' ! i = CHR ''_'' \<and>
         sanitizeFilename ''my file!!.json'' ! Suc i = CHR ''_'')"
    using t by (elim conjE)
  from r e have 1: "spec_sanitize ''my file!!.json'' = ''my_file_.json''" by simp
  have "filter (\<lambda>c. c \<noteq> CHR ''_'') ''my_file_.json'' = ''myfile.json''" by simp
  with f e have 2: "filter is_safe_char ''my file!!.json'' = ''myfile.json''" by simp
  from e have 3: "sanitizeFilename ''my file!!.json'' \<noteq> []" by simp
  from l 3 have 4: "last (sanitizeFilename ''my file!!.json'') \<noteq> CHR ''_''" by (rule mp)
  from e have 5: "CHR ''_'' \<in> set (sanitizeFilename ''my file!!.json'')" by simp
  from e have 6: "Suc 7 < length (sanitizeFilename ''my file!!.json'')" by simp
  from n [rule_format, OF 6] have 7: "\<not> (sanitizeFilename ''my file!!.json'' ! 7 = CHR ''_'' \<and>
      sanitizeFilename ''my file!!.json'' ! Suc 7 = CHR ''_'')" .
  from 1 2 3 4 5 6 7 show ?thesis by (intro conjI)
qed

subsection \<open>C6: getFileExtension and removeFileExtension\<close>

text \<open>
  Claim C6 states that \<open>getFileExtension\<close> returns the part of the name after its last
  dot, and the empty string for a name without an extension. The function returns that
  part in lower case: for \<open>photo.JPG\<close> it is \<open>jpg\<close>. For a name without a dot it
  returns the name.
\<close>

theorem getFileExtension_counterexample:
  "getFileExtension ''photo.JPG'' = ''jpg'' \<and> getFileExtension ''photo.JPG'' \<noteq> ''JPG'' \<and>
   getFileExtension ''noext'' = ''noext'' \<and> getFileExtension ''noext'' \<noteq> []"
  by code_simp

text \<open>
  Claim C6, amended. For a filename with a dot, \<open>getFileExtension\<close> returns the part
  after the last dot, in lower case (\<open>getFileExtension("archive.tar.gz") = "gz"\<close>).
  \<open>removeFileExtension\<close> removes the last dot and what follows it when that dot is
  not the first character of the name; a name whose only dot is its first character, and
  a name without a dot, are returned unchanged.

  (Nothing is stated here about \<open>getFileExtension\<close> on a name without a dot.)
\<close>

theorem file_extension_spec:
  "(CHR ''.'' \<notin> set suf \<longrightarrow> getFileExtension (pre @ CHR ''.'' # suf) = toLowerCase suf) \<and>
   (CHR ''.'' \<notin> set suf \<and> pre \<noteq> [] \<longrightarrow> removeFileExtension (pre @ CHR ''.'' # suf) = pre) \<and>
   (CHR ''.'' \<notin> set suf \<longrightarrow> removeFileExtension (CHR ''.'' # suf) = CHR ''.'' # suf) \<and>
   (CHR ''.'' \<notin> set name \<longrightarrow> removeFileExtension name = name) \<and>
   getFileExtension ''archive.tar.gz'' = ''gz''"
proof (intro conjI impI)
  assume "CHR ''.'' \<notin> set suf"
  then show "getFileExtension (pre @ CHR ''.'' # suf) = toLowerCase suf"
    by (rule getFileExtension_suffix)
next
  assume "CHR ''.'' \<notin> set suf \<and> pre \<noteq> []"
  then show "removeFileExtension (pre @ CHR ''.'' # suf) = pre"
    by (simp add: removeFileExtension_suffix)
next
  assume "CHR ''.'' \<notin> set suf"
  then show "removeFileExtension (CHR ''.'' # suf) = CHR ''.'' # suf"
    using removeFileExtension_suffix [of suf "[]"] by simp
next
  assume "CHR ''.'' \<notin> set name"
  then show "removeFileExtension name = name" by (rule removeFileExtension_no_dot)
next
  show "getFileExtension ''archive.tar.gz'' = ''gz''" by code_simp
qed

theorem file_extension_spec_witness:
  "getFileExtension ''archive.tar.GZ'' = toLowerCase ''GZ'' \<and>
   removeFileExtension ''archive.tar.gz'' = ''archive.tar'' \<and>
   removeFileExtension ''.bashrc'' = ''.bashrc'' \<and>
   removeFileExtension ''noext'' = ''noext''"
proof -
  have 1: "getFileExtension ''archive.tar.GZ'' = toLowerCase ''GZ''"
    using file_extension_spec [of "''GZ''" "''archive.tar''"] by simp
  have 2: "removeFileExtension ''archive.tar.gz'' = ''archive.tar''"
    using file_extension_spec [of "''gz''" "''archive.tar''"] by simp
  have 3: "removeFileExtension ''.bashrc'' = ''.bashrc''"
    using file_extension_spec [of "''bashrc''"] by simp
  have 4: "removeFileExtension ''noext'' = ''noext''"
    using file_extension_spec [of _ _ "''noext''"] by simp
  from 1 2 3 4 show ?thesis by simp
qed

subsection \<open>C7: the options of a conversion reach the service as given\<close>



subsection \<open>C8: timeouts, network failures and the shape of an error\<close>

text \<open>
  Claim C8 states that the caller of an operation can tell a timeout from a network
  failure. \<open>getSupportedFormats\<close> rejects with the same error, the \<open>ApiError\<close> with
  the message of the operation and the status 500, against a service that never answers
  and against one that cannot be reached: its \<open>catch\<close> replaces every error that is
  not an \<open>ApiError\<close>.
\<close>

theorem api_timeout_counterexample:
  "timed_out fetch_never \<lparr>req_url = api_base @ ''/formats'', req_method = ''GET'',
       req_headers = [], req_body = NoBody\<rparr> \<and>
   network_failed fetch_offline \<lparr>req_url = api_base @ ''/formats'', req_method = ''GET'',
       req_headers = [], req_body = NoBody\<rparr> \<and>
   getSupportedFormats api_base fetch_never =
     Inl (ApiError (JStr ''Failed to get supported formats'') 500 JNull) \<and>
   getSupportedFormats api_base fetch_offline = getSupportedFormats api_base fetch_never"
  by (simp add: timed_out_def network_failed_def fetch_never_def fetch_offline_def
        REQUEST_TIMEOUT_def getSupportedFormats_def getSupportedFormats_request_def
        fetchWithTimeout_def rethrow_def)

text \<open>
  Claim C8, amended. \<open>fetchWithTimeout\<close> rejects a request that exceeds the timeout
  (30 s unless another is given) with the Error \<open>Request timeout\<close>, and a request that
  fails on the network with the TypeError of \<open>fetch\<close>: two different errors. Every
  failure of every operation of the client is delivered as an \<open>ApiError\<close> with a
  message, a status and data. An operation delivers a timeout and a network failure
  alike, as the \<open>ApiError\<close> with the failure message of the operation, the status 500
  and no data.
\<close>

theorem api_failures_uniform:
  "(timed_out fetch req \<longrightarrow>
      fetchWithTimeout fetch req None = Inl (OtherError ''Error'' ''Request timeout'')) \<and>
   (network_failed fetch req \<longrightarrow>
      (\<exists>m. fetchWithTimeout fetch req None = Inl (OtherError ''TypeError'' m))) \<and>
   (\<forall>e. run_api base fetch call = Inl e \<longrightarrow> (\<exists>m s d. e = ApiError m s d)) \<and>
   (request_of base call = Inr req \<and> (timed_out fetch req \<or> network_failed fetch req) \<longrightarrow>
      run_api base fetch call = Inl (ApiError (JStr (failure_message call)) 500 JNull))"
proof (intro conjI allI impI)
  assume "timed_out fetch req"
  then show "fetchWithTimeout fetch req None = Inl (OtherError ''Error'' ''Request timeout'')"
    by (rule fetch_timed_out)
next
  assume "network_failed fetch req"
  then show "\<exists>m. fetchWithTimeout fetch req None = Inl (OtherError ''TypeError'' m)"
    by (rule fetch_network_failed)
next
  fix e assume "run_api base fetch call = Inl e"
  then show "\<exists>m s d. e = ApiError m s d" by (rule run_api_shape)
next
  assume a: "request_of base call = Inr req \<and> (timed_out fetch req \<or> network_failed fetch req)"
  then have r: "request_of base call = Inr req" by simp
  from a fetch_timed_out [of fetch req] fetch_network_failed [of fetch req]
  obtain n m where "fetchWithTimeout fetch req None = Inl (OtherError n m)" by auto
  from run_api_fetch_error [OF r this]
  show "run_api base fetch call = Inl (ApiError (JStr (failure_message call)) 500 JNull)"
    by (simp add: rethrow_other)
qed

theorem api_failures_uniform_witness:
  "fetchWithTimeout fetch_never
      \<lparr>req_url = api_base @ ''/formats'', req_method = ''GET'', req_headers = [],
       req_body = NoBody\<rparr> None = Inl (OtherError ''Error'' ''Request timeout'') \<and>
   (\<exists>m. fetchWithTimeout fetch_offline
      \<lparr>req_url = api_base @ ''/formats'', req_method = ''GET'', req_headers = [],
       req_body = NoBody\<rparr> None = Inl (OtherError ''TypeError'' m)) \<and>
   run_api api_base fetch_never GetSupportedFormats =
     Inl (ApiError (JStr ''Failed to get supported formats'') 500 JNull) \<and>
   run_api api_base fetch_offline GetSupportedFormats =
     Inl (ApiError (JStr ''Failed to get supported formats'') 500 JNull) \<and>
   run_api api_base fetch_offline (GetConversionStatus []) =
     Inl (ApiError (JStr ''Job ID is required'') 400 JNull)"
proof -
  let ?req = "\<lparr>req_url = api_base @ ''/formats'', req_method = ''GET'', req_headers = [],
       req_body = NoBody\<rparr>"
  have never: "timed_out fetch_never ?req"
    by (simp add: timed_out_def fetch_never_def)
  have offline: "network_failed fetch_offline ?req"
    by (simp add: network_failed_def fetch_offline_def REQUEST_TIMEOUT_def)
  have r: "request_of api_base GetSupportedFormats = Inr ?req"
    by (simp add: getSupportedFormats_request_def)
  note t1 = api_failures_uniform [of fetch_never ?req api_base GetSupportedFormats]
  note t2 = api_failures_uniform [of fetch_offline ?req api_base GetSupportedFormats]
  have 1: "fetchWithTimeout fetch_never ?req None = Inl (OtherError ''Error'' ''Request timeout'')"
    using t1 [THEN conjunct1] never by (rule mp)
  have 2: "\<exists>m. fetchWithTimeout fetch_offline ?req None = Inl (OtherError ''TypeError'' m)"
    using t2 [THEN conjunct2, THEN conjunct1] offline by (rule mp)
  have 3: "run_api api_base fetch_never GetSupportedFormats =
     Inl (ApiError (JStr ''Failed to get supported formats'') 500 JNull)"
    using t1 [THEN conjunct2, THEN conjunct2, THEN conjunct2] r never by simp
  have 4: "run_api api_base fetch_offline GetSupportedFormats =
     Inl (ApiError (JStr ''Failed to get supported formats'') 500 JNull)"
    using t2 [THEN conjunct2, THEN conjunct2, THEN conjunct2] r offline by simp
  have 5: "run_api api_base fetch_offline (GetConversionStatus []) =
     Inl (ApiError (JStr ''Job ID is required'') 400 JNull)"
    by (simp add: getConversionStatus_def getConversionStatus_request_def rethrow_def)
  from 1 2 3 4 5 show ?thesis by (intro conjI)
qed

subsection \<open>C9: the error of a response that is not a success\<close>



subsection \<open>C10: falsy values are taken for missing input\<close>

text \<open>
  Claim C10. For every falsy input other than \<open>null\<close> and the empty string, among them
  the number \<open>0\<close>, the boolean \<open>false\<close> and \<open>NaN\<close>, \<open>validateJsonData\<close> returns
  \<open>{isValid: false, errors: ["Data is required"]}\<close>, which is what it returns for a
  missing input (\<open>undefined\<close>): the two cannot be told apart.
\<close>

theorem validateJsonData_falsy:
  assumes "\<not> truthy data" and "data \<noteq> JNull" and "data \<noteq> JStr []"
  shows "validateJsonData data = \<lparr>isValid = False, errors = [''Data is required'']\<rparr> \<and>
         validateJsonData data = validateJsonData JUndefined"
  using assms(1) by (simp add: validate_falsy invalid_def)

theorem validateJsonData_falsy_witness:
  "validateJsonData (JNum (Dec False 0 0)) =
     \<lparr>isValid = False, errors = [''Data is required'']\<rparr> \<and>
   validateJsonData (JBool False) = \<lparr>isValid = False, errors = [''Data is required'']\<rparr> \<and>
   validateJsonData (JNum NaN) = \<lparr>isValid = False, errors = [''Data is required'']\<rparr> \<and>
   validateJsonData (JNum (Dec False 0 0)) = validateJsonData JUndefined"
proof -
  have 1: "validateJsonData (JNum (Dec False 0 0)) =
     \<lparr>isValid = False, errors = [''Data is required'']\<rparr> \<and>
     validateJsonData (JNum (Dec False 0 0)) = validateJsonData JUndefined"
    by (rule validateJsonData_falsy) simp_all
  have 2: "validateJsonData (JBool False) =
     \<lparr>isValid = False, errors = [''Data is required'']\<rparr> \<and>
     validateJsonData (JBool False) = validateJsonData JUndefined"
    by (rule validateJsonData_falsy) simp_all
  have 3: "validateJsonData (JNum NaN) =
     \<lparr>isValid = False, errors = [''Data is required'']\<rparr> \<and>
     validateJsonData (JNum NaN) = validateJsonData JUndefined"
    by (rule validateJsonData_falsy) simp_all
  from 1 2 3 show ?thesis by (intro conjI) (elim conjE, assumption)+
qed

end
